theory Spec2Isabelle
  imports Complex_Main "HOL-Library.Sublist"
begin

section \<open>Values of the script and of its host\<close>

text \<open>
  The script \<^verbatim>\<open>Code.js\<close> runs on a JavaScript host (Apps Script). Strings are modelled
  as lists of 8-bit characters, read as the code units U+0000 .. U+00FF; numbers are
  carried as exact rationals next to the three non-finite doubles (the script never
  computes with the numbers it moves into the table, apart from \<^verbatim>\<open>mm - 1\<close>).
\<close>

datatype jsnum = NaN | Fin rat | PosInf | NegInf

text \<open>What \<^verbatim>\<open>JSON.parse\<close> can return, and \<^verbatim>\<open>undefined\<close> for a property that is absent.\<close>

datatype jsval =
    JUndefined
  | JNull
  | JBool bool
  | JNum jsnum
  | JStr string
  | JArr "jsval list"
  | JObj "(string \<times> jsval) list"

text \<open>
  What a \<^verbatim>\<open>throw\<close> carries: \<^verbatim>\<open>new Error(msg)\<close> of the script itself; the errors the
  engine raises on its own (\<^verbatim>\<open>TypeError\<close>: a property read on \<^verbatim>\<open>null\<close> or \<^verbatim>\<open>undefined\<close>, or
  a call of something that is no function; \<^verbatim>\<open>SyntaxError\<close>: a text \<^verbatim>\<open>JSON.parse\<close> rejects;
  \<^verbatim>\<open>RangeError\<close>: \<^verbatim>\<open>toISOString\<close> on an invalid date); and the exception of the spreadsheet
  service for a range or a block of values of the wrong size. The message texts of the
  last four are not modelled.
\<close>

datatype error = Error string | TypeError | SyntaxError | RangeError | ServiceException

text \<open>
  A cell of a sheet as \<^verbatim>\<open>getValues\<close> reports it. A date is its time value in
  milliseconds, \<open>None\<close> for an invalid date (time value \<^verbatim>\<open>NaN\<close>).
\<close>

type_synonym jsdate = "int option"

datatype cell = Blank | CText string | CNumber jsnum | CBool bool | CDate jsdate

text \<open>
  The services the script calls and whose code is not part of the repository. They
  are parameters of the model: a statement with a free \<open>h\<close> or \<open>g\<close> holds for every host
  and every engine.

  For the sheet and its dates (\<open>host\<close>):
  \<^item> \<open>jsNumber\<close>: \<^verbatim>\<open>Number(s)\<close> on a string;
  \<^item> \<open>newDate\<close>: the time value of \<^verbatim>\<open>new Date(y, m, d)\<close> (local time);
  \<^item> \<open>setHoursZero\<close>: the time value after \<^verbatim>\<open>setHours(0, 0, 0, 0)\<close> on a valid date;
  \<^item> \<open>finderMatches\<close>: whether a cell meets the criterion of a \<^verbatim>\<open>TextFinder\<close> created
    for a search text with no option set. The finder is taken to answer for every
    search text.

  For the request and the response (\<open>engine\<close>):
  \<^item> \<open>jsonParse\<close>: \<^verbatim>\<open>JSON.parse\<close>;
  \<^item> \<open>otherToString\<close>: the string conversion of a number, an array or an object;
  \<^item> \<open>errorText\<close>: \<^verbatim>\<open>toString()\<close> of an error the engine or a service raised.
\<close>

record host =
  jsNumber :: "string \<Rightarrow> jsnum"
  newDate :: "jsnum \<Rightarrow> jsnum \<Rightarrow> jsnum \<Rightarrow> jsdate"
  setHoursZero :: "int \<Rightarrow> jsdate"
  finderMatches :: "string \<Rightarrow> cell \<Rightarrow> bool"

record engine =
  jsonParse :: "string \<Rightarrow> error + jsval"
  otherToString :: "jsval \<Rightarrow> string"
  errorText :: "error \<Rightarrow> string"

section \<open>Strings: white space, trimming, the three fence patterns\<close>

text \<open>
  White space of \<^verbatim>\<open>\s\<close> and of \<^verbatim>\<open>String.prototype.trim\<close> among the code units below
  256: TAB, LF, VT, FF, CR, SP and NBSP.
\<close>

definition isWhiteSpace :: "char \<Rightarrow> bool" where
  "isWhiteSpace c =
     (c = CHR 0x09 \<or> c = CHR 0x0A \<or> c = CHR 0x0B \<or> c = CHR 0x0C \<or> c = CHR 0x0D
      \<or> c = CHR 0x20 \<or> c = CHR 0xA0)"

definition trimStart :: "string \<Rightarrow> string" where
  "trimStart s = dropWhile isWhiteSpace s"

definition trimEnd :: "string \<Rightarrow> string" where
  "trimEnd s = rev (dropWhile isWhiteSpace (rev s))"

definition trim :: "string \<Rightarrow> string" where
  "trim s = trimEnd (trimStart s)"

definition backtick :: char where
  "backtick = CHR 0x60"

definition newline :: char where
  "newline = CHR 0x0A"

definition fence :: string where
  "fence = [backtick, backtick, backtick]"

definition fenceJson :: string where
  "fenceJson = fence @ ''json''"

text \<open>
  The flag \<^verbatim>\<open>i\<close> compares characters after canonicalisation (upper case). A character
  outside ASCII never canonicalises to an ASCII one, so against the ASCII patterns of
  the script only the letters a-z need their upper case.
\<close>

definition canonicalize :: "char \<Rightarrow> char" where
  "canonicalize c =
     (case map_of (zip ''abcdefghijklmnopqrstuvwxyz'' ''ABCDEFGHIJKLMNOPQRSTUVWXYZ'') c of
        Some u \<Rightarrow> u
      | None \<Rightarrow> c)"

text \<open>A literal pattern matched at the start of a string, ignoring case: what follows it.\<close>

fun matchPrefixCI :: "string \<Rightarrow> string \<Rightarrow> string option" where
  "matchPrefixCI [] s = Some s"
| "matchPrefixCI (p # ps) [] = None"
| "matchPrefixCI (p # ps) (c # cs) =
     (if canonicalize p = canonicalize c then matchPrefixCI ps cs else None)"

text \<open>\<^verbatim>\<open>.replace(/^```json\s*/i, '')\<close>\<close>

definition replaceFenceJson :: "string \<Rightarrow> string" where
  "replaceFenceJson s =
     (case matchPrefixCI fenceJson s of
        Some r \<Rightarrow> dropWhile isWhiteSpace r
      | None \<Rightarrow> s)"

text \<open>\<^verbatim>\<open>.replace(/^```\s*/i, '')\<close>\<close>

definition replaceFence :: "string \<Rightarrow> string" where
  "replaceFence s =
     (case matchPrefixCI fence s of
        Some r \<Rightarrow> dropWhile isWhiteSpace r
      | None \<Rightarrow> s)"

text \<open>
  \<^verbatim>\<open>.replace(/```$/i, '')\<close>: without the flag \<^verbatim>\<open>m\<close> the anchor is the end of the input,
  so the pattern matches the last three characters or nothing.
\<close>

definition replaceFenceEnd :: "string \<Rightarrow> string" where
  "replaceFenceEnd s =
     (case matchPrefixCI fence (rev s) of
        Some r \<Rightarrow> rev r
      | None \<Rightarrow> s)"

text \<open>\<^verbatim>\<open>cleanTextResponse\<close> of \<^verbatim>\<open>callGemini\<close>, and the value it returns.\<close>

definition cleanTextResponse :: "string \<Rightarrow> string" where
  "cleanTextResponse textResponse =
     trim (replaceFenceEnd (replaceFence (replaceFenceJson textResponse)))"

definition parseTextResponse :: "engine \<Rightarrow> string \<Rightarrow> error + jsval" where
  "parseTextResponse g textResponse = jsonParse g (cleanTextResponse textResponse)"

text \<open>
  A text that, once trimmed, neither begins nor ends with a fence. Every JSON text is
  one: it begins with one of \<^verbatim>\<open>{ [ " -\<close>, a digit or t, f, n, and ends with one of
  \<^verbatim>\<open>} ] "\<close>, a digit or e, l.
\<close>

definition fenceFree :: "string \<Rightarrow> bool" where
  "fenceFree t = (\<not> prefix fence (trim t) \<and> \<not> suffix fence (trim t))"


section \<open>Reading the response of the model (\<^verbatim>\<open>callGemini\<close>, after the fetch)\<close>

text \<open>
  Truthiness, and the reads of a property. \<open>ownProp\<close> is the read of a named property
  on a value that is neither \<^verbatim>\<open>null\<close> nor \<^verbatim>\<open>undefined\<close>; it is used for the names the
  script reads (\<^verbatim>\<open>image\<close>, \<^verbatim>\<open>base64\<close>, \<^verbatim>\<open>data\<close>, \<^verbatim>\<open>error\<close>, \<^verbatim>\<open>message\<close>, \<^verbatim>\<open>candidates\<close>,
  \<^verbatim>\<open>content\<close>, \<^verbatim>\<open>parts\<close>, \<^verbatim>\<open>text\<close>), none of which a prototype defines, so only an
  object can hold them. \<open>index0\<close> is the read of \<^verbatim>\<open>[0]\<close>.
\<close>

fun truthy :: "jsval \<Rightarrow> bool" where
  "truthy JUndefined = False"
| "truthy JNull = False"
| "truthy (JBool b) = b"
| "truthy (JNum n) = (n \<noteq> NaN \<and> n \<noteq> Fin 0)"
| "truthy (JStr s) = (s \<noteq> [])"
| "truthy (JArr xs) = True"
| "truthy (JObj kvs) = True"

definition jsOr :: "jsval \<Rightarrow> jsval \<Rightarrow> jsval" where
  "jsOr a b = (if truthy a then a else b)"

fun ownProp :: "jsval \<Rightarrow> string \<Rightarrow> jsval" where
  "ownProp (JObj kvs) k = (case map_of kvs k of Some v \<Rightarrow> v | None \<Rightarrow> JUndefined)"
| "ownProp v k = JUndefined"

fun index0 :: "jsval \<Rightarrow> jsval" where
  "index0 (JArr xs) = (case xs of [] \<Rightarrow> JUndefined | x # _ \<Rightarrow> x)"
| "index0 (JStr s) = (case s of [] \<Rightarrow> JUndefined | c # _ \<Rightarrow> JStr [c])"
| "index0 (JObj kvs) = (case map_of kvs ''0'' of Some v \<Rightarrow> v | None \<Rightarrow> JUndefined)"
| "index0 v = JUndefined"

definition nullish :: "jsval \<Rightarrow> bool" where
  "nullish v = (v = JUndefined \<or> v = JNull)"

definition getProp :: "jsval \<Rightarrow> string \<Rightarrow> error + jsval" where
  "getProp v k = (if nullish v then Inl TypeError else Inr (ownProp v k))"

definition getIndex0 :: "jsval \<Rightarrow> error + jsval" where
  "getIndex0 v = (if nullish v then Inl TypeError else Inr (index0 v))"

definition andThen :: "error + 'a \<Rightarrow> ('a \<Rightarrow> error + 'b) \<Rightarrow> error + 'b" where
  "andThen m f = (case m of Inl e \<Rightarrow> Inl e | Inr x \<Rightarrow> f x)"

text \<open>String conversion (\<^verbatim>\<open>String(v)\<close>, and \<^verbatim>\<open>+\<close> with a string).\<close>

definition jsToString :: "engine \<Rightarrow> jsval \<Rightarrow> string" where
  "jsToString g v =
     (case v of
        JStr s \<Rightarrow> s
      | JUndefined \<Rightarrow> ''undefined''
      | JNull \<Rightarrow> ''null''
      | JBool b \<Rightarrow> (if b then ''true'' else ''false'')
      | _ \<Rightarrow> otherToString g v)"

text \<open>\<^verbatim>\<open>json.candidates[0].content.parts[0].text\<close>\<close>

definition textResponseOf :: "jsval \<Rightarrow> error + jsval" where
  "textResponseOf json =
     andThen (getProp json ''candidates'') (\<lambda>candidates.
     andThen (getIndex0 candidates) (\<lambda>candidate.
     andThen (getProp candidate ''content'') (\<lambda>content.
     andThen (getProp content ''parts'') (\<lambda>parts.
     andThen (getIndex0 parts) (\<lambda>part.
     getProp part ''text'')))))"

text \<open>
  \<^verbatim>\<open>callGemini\<close> from the line that parses the body of the response. The request is
  built and sent before; \<open>contentText\<close> is \<^verbatim>\<open>response.getContentText()\<close>. The method
  \<^verbatim>\<open>replace\<close> exists on a string only: on any other value the call raises a
  \<^verbatim>\<open>TypeError\<close>.
\<close>

definition callGeminiResponse :: "engine \<Rightarrow> string \<Rightarrow> error + jsval" where
  "callGeminiResponse g contentText =
     andThen (jsonParse g contentText) (\<lambda>json.
     andThen (getProp json ''error'') (\<lambda>err.
       if truthy err
       then andThen (getProp err ''message'') (\<lambda>message.
              Inl (Error (''Gemini API Error: '' @ jsToString g message)))
       else andThen (textResponseOf json) (\<lambda>textResponse.
              case textResponse of
                JStr s \<Rightarrow> parseTextResponse g s
              | _ \<Rightarrow> Inl TypeError)))"

text \<open>
  The path of the response that holds the text, said without the script: the body has
  it when the chain of reads ends in a string.
\<close>

definition hasTextPath :: "jsval \<Rightarrow> bool" where
  "hasTextPath json =
     (case json of
        JObj body \<Rightarrow>
          (case index0 (ownProp json ''candidates'') of
             JObj candidate \<Rightarrow>
               (case index0 (ownProp (ownProp (JObj candidate) ''content'') ''parts'') of
                  JObj part \<Rightarrow> (case ownProp (JObj part) ''text'' of JStr s \<Rightarrow> True | _ \<Rightarrow> False)
                | _ \<Rightarrow> False)
           | _ \<Rightarrow> False)
      | _ \<Rightarrow> False)"

definition hasErrorObject :: "jsval \<Rightarrow> bool" where
  "hasErrorObject json = truthy (ownProp json ''error'')"

section \<open>The image of the request (\<^verbatim>\<open>getType\<close>, \<^verbatim>\<open>doPost\<close>)\<close>

fun typeof :: "jsval \<Rightarrow> string" where
  "typeof JUndefined = ''undefined''"
| "typeof JNull = ''object''"
| "typeof (JBool b) = ''boolean''"
| "typeof (JNum n) = ''number''"
| "typeof (JStr s) = ''string''"
| "typeof (JArr xs) = ''object''"
| "typeof (JObj kvs) = ''object''"

text \<open>\<^verbatim>\<open>Object.prototype.toString.call(value)\<close> on an array or an object, and \<^verbatim>\<open>slice(8, -1)\<close>.\<close>

fun objectToString :: "jsval \<Rightarrow> string" where
  "objectToString (JArr xs) = ''[object Array]''"
| "objectToString JNull = ''[object Null]''"
| "objectToString JUndefined = ''[object Undefined]''"
| "objectToString (JBool b) = ''[object Boolean]''"
| "objectToString (JNum n) = ''[object Number]''"
| "objectToString (JStr s) = ''[object String]''"
| "objectToString (JObj kvs) = ''[object Object]''"

definition slice8 :: "string \<Rightarrow> string" where
  "slice8 s = drop 8 (take (length s - 1) s)"

definition getType :: "jsval \<Rightarrow> string" where
  "getType v =
     (let type = typeof v in
      if type \<noteq> ''object'' then type
      else if v = JNull then ''null''
      else slice8 (objectToString v))"

text \<open>\<^verbatim>\<open>.replace(/^data:image\/[a-zA-Z0-9.+-]+;base64,/, '')\<close>\<close>

definition isSubtypeChar :: "char \<Rightarrow> bool" where
  "isSubtypeChar c =
     (c \<in> set ''abcdefghijklmnopqrstuvwxyzABCDEFGHIJKLMNOPQRSTUVWXYZ0123456789.+-'')"

fun matchPrefix :: "string \<Rightarrow> string \<Rightarrow> string option" where
  "matchPrefix [] s = Some s"
| "matchPrefix (p # ps) [] = None"
| "matchPrefix (p # ps) (c # cs) = (if p = c then matchPrefix ps cs else None)"

text \<open>
  The class excludes \<^verbatim>\<open>;\<close>, so the greedy \<^verbatim>\<open>+\<close> has one way to match: the longest run
  of subtype characters, at least one, followed by \<^verbatim>\<open>;base64,\<close>.
\<close>

definition replaceDataUri :: "string \<Rightarrow> string" where
  "replaceDataUri s =
     (case matchPrefix ''data:image/'' s of
        None \<Rightarrow> s
      | Some r \<Rightarrow>
          if takeWhile isSubtypeChar r = [] then s
          else (case matchPrefix '';base64,'' (dropWhile isSubtypeChar r) of
                  None \<Rightarrow> s
                | Some rest \<Rightarrow> rest))"

text \<open>
  The lines of \<^verbatim>\<open>doPost\<close> from \<^verbatim>\<open>const img = postData.image\<close> to the normalised string.
  \<open>unwrapImage\<close> is the value of \<^verbatim>\<open>base64Image\<close> after the block on objects.

  The calls of \<^verbatim>\<open>log_\<close> append to the sheet \<^verbatim>\<open>Log\<close>; they are left out, but for the one
  that can throw. Before the \<^verbatim>\<open>throw\<close> for a value that is not a string, the script logs
  \<^verbatim>\<open>JSON.stringify(img).substring(0, 200)\<close>. \<^verbatim>\<open>JSON.stringify\<close> gives a string for every
  value of a parsed JSON text and \<^verbatim>\<open>undefined\<close> for \<^verbatim>\<open>undefined\<close>, on which the read of
  \<^verbatim>\<open>substring\<close> raises a \<^verbatim>\<open>TypeError\<close>.
\<close>

definition unwrapImage :: "jsval \<Rightarrow> jsval" where
  "unwrapImage img =
     (if typeof img = ''object'' \<and> img \<noteq> JNull
      then jsOr (ownProp img ''base64'') (jsOr (ownProp img ''data'') JNull)
      else img)"

definition normalizeImage :: "engine \<Rightarrow> jsval \<Rightarrow> error + string" where
  "normalizeImage g img =
     (let base64Image = unwrapImage img;
          imgRefType = getType base64Image
      in if imgRefType \<noteq> ''string''
         then (if img = JUndefined then Inl TypeError
               else Inl (Error (''base64Image has wrong type: '' @ imgRefType
                                  @ '' instead of string'')))
         else Inr (trim (replaceDataUri (jsToString g base64Image))))"

text \<open>
  The stages \<^verbatim>\<open>doPost\<close> runs after the normalisation. They read the spreadsheet and
  the network, here a state of any type \<open>'w\<close>, and each may throw.
\<close>

record ('m, 'a, 'w) stages =
  getHabitMetadata :: "'w \<Rightarrow> (error + 'm) \<times> 'w"
  callGemini :: "string \<Rightarrow> 'm \<Rightarrow> 'w \<Rightarrow> (error + 'a) \<times> 'w"
  updateSheetStage :: "'a \<Rightarrow> 'w \<Rightarrow> (error + string) \<times> 'w"

definition errorToString :: "engine \<Rightarrow> error \<Rightarrow> string" where
  "errorToString g e = (case e of Error m \<Rightarrow> ''Error: '' @ m | _ \<Rightarrow> errorText g e)"

text \<open>
  \<^verbatim>\<open>doPost\<close>: the body of the \<^verbatim>\<open>try\<close>, then the \<^verbatim>\<open>catch\<close>. The event is the contents of
  its \<^verbatim>\<open>postData\<close>, \<open>None\<close> when the event or its \<^verbatim>\<open>postData\<close> is missing. The result is
  the text of the response and the state the stages left.
\<close>

definition doPostTry ::
  "engine \<Rightarrow> ('m, 'a, 'w) stages \<Rightarrow> string option \<Rightarrow> 'w \<Rightarrow> (error + string) \<times> 'w" where
  "doPostTry g st e w =
     (case e of
        None \<Rightarrow> (Inl (Error ''No data received''), w)
      | Some raw \<Rightarrow>
         (case andThen (andThen (jsonParse g raw) (\<lambda>postData. getProp postData ''image''))
                 (normalizeImage g) of
            Inl err \<Rightarrow> (Inl err, w)
          | Inr base64Image \<Rightarrow>
             (case getHabitMetadata st w of
                (Inl err, w1) \<Rightarrow> (Inl err, w1)
              | (Inr meta, w1) \<Rightarrow>
                 (case callGemini st base64Image meta w1 of
                    (Inl err, w2) \<Rightarrow> (Inl err, w2)
                  | (Inr analysis, w2) \<Rightarrow> updateSheetStage st analysis w2))))"

definition doPost ::
  "engine \<Rightarrow> ('m, 'a, 'w) stages \<Rightarrow> string option \<Rightarrow> 'w \<Rightarrow> string \<times> 'w" where
  "doPost g st e w =
     (case doPostTry g st e w of
        (Inr result, w') \<Rightarrow> (result, w')
      | (Inl err, w') \<Rightarrow> (''Error: '' @ errorToString g err, w'))"

text \<open>
  An image that is a string, or an object that holds a string under \<^verbatim>\<open>base64\<close> or
  under \<^verbatim>\<open>data\<close>.
\<close>

definition isString :: "jsval \<Rightarrow> bool" where
  "isString v = (case v of JStr s \<Rightarrow> True | _ \<Rightarrow> False)"

definition wrapsString :: "jsval \<Rightarrow> bool" where
  "wrapsString img =
     (case img of
        JStr s \<Rightarrow> True
      | JObj kvs \<Rightarrow> isString (ownProp img ''base64'') \<or> isString (ownProp img ''data'')
      | _ \<Rightarrow> False)"


section \<open>The weekly sheet\<close>

text \<open>
  A sheet is its name and the contents of its grid, an association list from
  (row, column), both counted from 1, to the cell; the first binding of a position is
  the one in force, and a position without a binding is blank. The grid is taken to be
  as large as the writes need: the rows written are rows that hold a label, and the
  sheet has the columns C to I (a new sheet has 26 columns).
\<close>

record sheet =
  sheetName :: string
  cells :: "((nat \<times> nat) \<times> cell) list"

definition cellAt :: "sheet \<Rightarrow> nat \<Rightarrow> nat \<Rightarrow> cell" where
  "cellAt s r c =
     (if r = 0 \<or> c = 0 then Blank
      else (case map_of (cells s) (r, c) of None \<Rightarrow> Blank | Some v \<Rightarrow> v))"

text \<open>\<^verbatim>\<open>getLastRow\<close>, \<^verbatim>\<open>getLastColumn\<close>: the last row and column with content, 0 if none.\<close>

definition contentPositions :: "sheet \<Rightarrow> (nat \<times> nat) list" where
  "contentPositions s = filter (\<lambda>(r, c). cellAt s r c \<noteq> Blank) (map fst (cells s))"

definition getLastRow :: "sheet \<Rightarrow> nat" where
  "getLastRow s = foldr max (map fst (contentPositions s)) 0"

definition getLastColumn :: "sheet \<Rightarrow> nat" where
  "getLastColumn s = foldr max (map snd (contentPositions s)) 0"

text \<open>
  \<^verbatim>\<open>getDataRange().getValues()\<close>: the rows from A1 to the last row and column with
  content (the single cell A1 on an empty sheet).
\<close>

definition getDataRangeValues :: "sheet \<Rightarrow> cell list list" where
  "getDataRangeValues s =
     map (\<lambda>r. map (\<lambda>c. cellAt s r c) [1 ..< Suc (max 1 (getLastColumn s))])
       [1 ..< Suc (max 1 (getLastRow s))]"

text \<open>
  A range: \<^verbatim>\<open>getRange(row, column, numRows, numColumns)\<close>. The service refuses a range
  with no row or no column, and one that starts before row 1 or column 1.
\<close>

record cellRange =
  rangeRow :: nat
  rangeColumn :: nat
  numRows :: nat
  numColumns :: nat

definition getRange :: "nat \<Rightarrow> nat \<Rightarrow> int \<Rightarrow> int \<Rightarrow> error + cellRange" where
  "getRange r c nr nc =
     (if r < 1 \<or> c < 1 \<or> nr < 1 \<or> nc < 1 then Inl ServiceException
      else Inr \<lparr>rangeRow = r, rangeColumn = c, numRows = nat nr, numColumns = nat nc\<rparr>)"

text \<open>The positions of a range, row by row.\<close>

definition rangePositions :: "cellRange \<Rightarrow> (nat \<times> nat) list" where
  "rangePositions rg =
     concat (map (\<lambda>i. map (\<lambda>j. (i, j)) [rangeColumn rg ..< rangeColumn rg + numColumns rg])
               [rangeRow rg ..< rangeRow rg + numRows rg])"

text \<open>
  \<^verbatim>\<open>setValues\<close>: the block of values must have the size of the range; then each cell of
  the range takes its value.
\<close>

definition setValues :: "sheet \<Rightarrow> cellRange \<Rightarrow> cell list list \<Rightarrow> error + sheet" where
  "setValues s rg vss =
     (if length vss \<noteq> numRows rg \<or> \<not> list_all (\<lambda>vs. length vs = numColumns rg) vss
      then Inl ServiceException
      else Inr (s\<lparr>cells := zip (rangePositions rg) (concat vss) @ cells s\<rparr>))"

text \<open>
  \<^verbatim>\<open>range.createTextFinder(findText).findNext()\<close>: the first cell of the range, row by
  row, that meets the criterion of the finder; \<open>None\<close> for \<^verbatim>\<open>null\<close>.
\<close>

definition findNext :: "host \<Rightarrow> sheet \<Rightarrow> cellRange \<Rightarrow> string \<Rightarrow> (nat \<times> nat) option" where
  "findNext h s rg findText =
     find (\<lambda>(r, c). finderMatches h findText (cellAt s r c)) (rangePositions rg)"

section \<open>Dates (\<^verbatim>\<open>parseMmDdYyyy\<close>, \<^verbatim>\<open>findFirstDateMatch\<close>)\<close>

text \<open>\<^verbatim>\<open>str.split('/')\<close>\<close>

fun splitOn :: "char \<Rightarrow> string \<Rightarrow> string list" where
  "splitOn d [] = [[]]"
| "splitOn d (c # cs) =
     (if c = d then [] # splitOn d cs
      else (case splitOn d cs of [] \<Rightarrow> [[c]] | p # ps \<Rightarrow> (c # p) # ps))"

text \<open>
  An element the destructuring does not find is \<^verbatim>\<open>undefined\<close>, which is \<^verbatim>\<open>NaN\<close> as a
  number. \<^verbatim>\<open>mm - 1\<close> is exact on the rationals (as it is on the doubles below 2^53).
\<close>

definition nthNumber :: "jsnum list \<Rightarrow> nat \<Rightarrow> jsnum" where
  "nthNumber ps i = (if i < length ps then ps ! i else NaN)"

fun minusOne :: "jsnum \<Rightarrow> jsnum" where
  "minusOne (Fin q) = Fin (q - 1)"
| "minusOne n = n"

definition parseMmDdYyyy :: "host \<Rightarrow> string \<Rightarrow> jsdate" where
  "parseMmDdYyyy h str =
     (let ps = map (jsNumber h) (splitOn (CHR ''/'') str);
          mm = nthNumber ps 0;
          dd = nthNumber ps 1;
          yyyy = nthNumber ps 2
      in newDate h yyyy (minusOne mm) dd)"

text \<open>
  \<^verbatim>\<open>new Date(v); setHours(0, 0, 0, 0)\<close> keeps an invalid date invalid.
  \<^verbatim>\<open>d.getTime() === t.getTime()\<close> is false when either side is \<^verbatim>\<open>NaN\<close>.
\<close>

definition atMidnight :: "host \<Rightarrow> jsdate \<Rightarrow> jsdate" where
  "atMidnight h d = (case d of None \<Rightarrow> None | Some ms \<Rightarrow> setHoursZero h ms)"

definition sameTime :: "jsdate \<Rightarrow> jsdate \<Rightarrow> bool" where
  "sameTime a b = (case a of None \<Rightarrow> False | Some x \<Rightarrow> (case b of None \<Rightarrow> False | Some y \<Rightarrow> x = y))"

text \<open>The test of the inner loop on one value \<open>v\<close>, for the normalised target \<open>t\<close>.\<close>

definition dateMatches :: "host \<Rightarrow> jsdate \<Rightarrow> cell \<Rightarrow> bool" where
  "dateMatches h t v = (case v of CDate d \<Rightarrow> sameTime (atMidnight h d) t | _ \<Rightarrow> False)"

record position =
  row :: nat
  column :: nat

text \<open>
  The two loops. \<open>scanColumns\<close> is the inner loop on what is left of a row from index
  \<open>c\<close>; \<open>scanRows\<close> the outer loop on what is left of the rows from index \<open>r\<close>.
\<close>

fun scanColumns :: "host \<Rightarrow> jsdate \<Rightarrow> cell list \<Rightarrow> nat \<Rightarrow> nat option" where
  "scanColumns h t [] c = None"
| "scanColumns h t (v # vs) c =
     (if dateMatches h t v then Some c else scanColumns h t vs (Suc c))"

fun scanRows :: "host \<Rightarrow> jsdate \<Rightarrow> cell list list \<Rightarrow> nat \<Rightarrow> position option" where
  "scanRows h t [] r = None"
| "scanRows h t (vs # vss) r =
     (case scanColumns h t vs 0 of
        Some c \<Rightarrow> Some \<lparr>row = r + 1, column = c + 1\<rparr>
      | None \<Rightarrow> scanRows h t vss (Suc r))"

definition findFirstDateMatch :: "host \<Rightarrow> sheet \<Rightarrow> jsdate \<Rightarrow> position option" where
  "findFirstDateMatch h s targetDate =
     (let cellValues = getDataRangeValues s;
          t = atMidnight h targetDate
      in scanRows h t cellValues 0)"

text \<open>
  A cell holds the target date at day granularity: it is a date, and both sides,
  normalised to midnight, are the same valid time.
\<close>

definition holdsDate :: "host \<Rightarrow> sheet \<Rightarrow> jsdate \<Rightarrow> nat \<Rightarrow> nat \<Rightarrow> bool" where
  "holdsDate h s targetDate r c = dateMatches h (atMidnight h targetDate) (cellAt s r c)"

text \<open>Reading order: top to bottom, and left to right within a row.\<close>

definition readsBefore :: "nat \<times> nat \<Rightarrow> nat \<times> nat \<Rightarrow> bool" where
  "readsBefore p q = (fst p < fst q \<or> (fst p = fst q \<and> snd p < snd q))"

section \<open>Reconciliation (\<^verbatim>\<open>updateSheet\<close>)\<close>

text \<open>
  The result of the extraction as the specification types it: an entry is a habit
  name and its values, numbers or \<^verbatim>\<open>null\<close>; \<open>None\<close> stands for a field that is
  absent.
\<close>

record habitEntry =
  habit :: string
  vals :: "jsnum option list option"

record extraction =
  week_start_date :: "string option"
  data :: "habitEntry list option"

text \<open>\<^verbatim>\<open>while (rowValues.length < 7) rowValues.push(null)\<close>\<close>

function pushNulls :: "'a option list \<Rightarrow> 'a option list" where
  "pushNulls rowValues =
     (if length rowValues < 7 then pushNulls (rowValues @ [None]) else rowValues)"
  by pat_completeness auto
termination
  by (relation "measure (\<lambda>rowValues. 7 - length rowValues)") auto

definition rowValuesOf :: "habitEntry \<Rightarrow> jsnum option list" where
  "rowValuesOf item =
     (let rowValues = (case vals item of None \<Rightarrow> [] | Some vs \<Rightarrow> vs);
          rowValues = (if length rowValues > 7 then take 7 rowValues else rowValues)
      in pushNulls rowValues)"

text \<open>What \<^verbatim>\<open>setValues\<close> stores for a value of the script: \<^verbatim>\<open>null\<close> empties the cell.\<close>

definition cellOfValue :: "jsnum option \<Rightarrow> cell" where
  "cellOfValue v = (case v of None \<Rightarrow> Blank | Some n \<Rightarrow> CNumber n)"

text \<open>The callback of \<^verbatim>\<open>data.data.forEach\<close>, on the sheet and the counter \<^verbatim>\<open>updates\<close>.\<close>

definition updateEntry ::
  "host \<Rightarrow> cellRange \<Rightarrow> habitEntry \<Rightarrow> sheet \<times> nat \<Rightarrow> error + sheet \<times> nat" where
  "updateEntry h searchRange item st =
     (case findNext h (fst st) searchRange (habit item) of
        None \<Rightarrow> Inr st
      | Some habitCell \<Rightarrow>
          andThen (getRange (fst habitCell) 3 1 7) (\<lambda>target.
          andThen (setValues (fst st) target [map cellOfValue (rowValuesOf item)]) (\<lambda>s'.
          Inr (s', snd st + 1))))"

fun forEach ::
  "host \<Rightarrow> cellRange \<Rightarrow> habitEntry list \<Rightarrow> sheet \<times> nat \<Rightarrow> error + sheet \<times> nat" where
  "forEach h searchRange [] st = Inr st"
| "forEach h searchRange (item # items) st =
     andThen (updateEntry h searchRange item st) (forEach h searchRange items)"

text \<open>A count in a template literal: its decimal digits.\<close>

fun showNat :: "nat \<Rightarrow> string" where
  "showNat n =
     (if n < 10 then [''0123456789'' ! n]
      else showNat (n div 10) @ [''0123456789'' ! (n mod 10)])"

definition quote :: char where
  "quote = CHR 0x22"

text \<open>
  \<^verbatim>\<open>updateSheet\<close>. \<open>found\<close> is what \<^verbatim>\<open>getSheetByName(SHEET_NAME_WEEKLY)\<close> returned, \<open>d\<close>
  the argument; \<open>stringify\<close> stands for \<^verbatim>\<open>JSON.stringify\<close> in the message of the third
  error. The result is the returned string and the sheet after the writes.

  Between the search for the date and the test of its result the script logs
  \<^verbatim>\<open>targetDate.toISOString()\<close>, which raises a \<^verbatim>\<open>RangeError\<close> on an invalid date.
\<close>

definition updateSheet ::
  "host \<Rightarrow> (extraction \<Rightarrow> string) \<Rightarrow> sheet option \<Rightarrow> extraction option
     \<Rightarrow> error + string \<times> sheet" where
  "updateSheet h stringify found d =
     (case found of
        None \<Rightarrow> Inl (Error ''Sheet 'Weekly View' not found.'')
      | Some s \<Rightarrow>
     (case d of
        None \<Rightarrow> Inl (Error ''updateSheet error: data object is null/undefined.'')
      | Some dat \<Rightarrow>
     (case week_start_date dat of
        None \<Rightarrow>
          Inl (Error (''updateSheet error: week_start_date is missing. Full data: ''
                        @ stringify dat))
      | Some w \<Rightarrow>
          if w = []
          then Inl (Error (''updateSheet error: week_start_date is missing. Full data: ''
                             @ stringify dat))
          else
     (let targetDate = parseMmDdYyyy h w;
          match = findFirstDateMatch h s targetDate
      in if targetDate = None then Inl RangeError
         else
     (case match of
        None \<Rightarrow>
          Inr (''Error: Could not find week starting '' @ w @ '' in sheet '' @ [quote]
                 @ sheetName s @ [quote] @ ''.'', s)
      | Some m \<Rightarrow>
          (let startRow = row m;
               lastRow = getLastRow s;
               rowCount = int lastRow - int startRow + 1
           in andThen (getRange startRow 1 rowCount 1) (\<lambda>searchRange.
              case data dat of
                None \<Rightarrow> Inl TypeError
              | Some items \<Rightarrow>
                  andThen (forEach h searchRange items (s, 0)) (\<lambda>st.
                  Inr (''Success! Updated '' @ showNat (snd st) @ '' habits for week of '' @ w,
                       fst st)))))))))"

text \<open>
  The row the lookup gives for a habit name, in the window from the anchor row to the
  last row with content.
\<close>

definition searchWindow :: "sheet \<Rightarrow> nat \<Rightarrow> cellRange" where
  "searchWindow s startRow =
     \<lparr>rangeRow = startRow, rangeColumn = 1,
      numRows = getLastRow s + 1 - startRow, numColumns = 1\<rparr>"

definition habitRow :: "host \<Rightarrow> sheet \<Rightarrow> nat \<Rightarrow> string \<Rightarrow> nat option" where
  "habitRow h s startRow name = map_option fst (findNext h s (searchWindow s startRow) name)"


text \<open>
  The range of the seven value cells of row \<open>r\<close>, the text of the summary, and, for
  the statements about the whole loop: whether the lookup finds an entry, and the
  last entry of a list that the lookup sends to row \<open>r\<close>.
\<close>

definition rowRange :: "nat \<Rightarrow> cellRange" where
  "rowRange r = \<lparr>rangeRow = r, rangeColumn = 3, numRows = 1, numColumns = 7\<rparr>"

definition successText :: "nat \<Rightarrow> string \<Rightarrow> string" where
  "successText n w = ''Success! Updated '' @ showNat n @ '' habits for week of '' @ w"

definition matched :: "host \<Rightarrow> sheet \<Rightarrow> cellRange \<Rightarrow> habitEntry \<Rightarrow> bool" where
  "matched h s rg e = (findNext h s rg (habit e) \<noteq> None)"

definition lastWrite ::
  "host \<Rightarrow> sheet \<Rightarrow> cellRange \<Rightarrow> habitEntry list \<Rightarrow> nat \<Rightarrow> habitEntry option" where
  "lastWrite h s rg items r =
     (case filter (\<lambda>e. findNext h s rg (habit e) = Some (r, 1)) items of
        [] \<Rightarrow> None
      | ms \<Rightarrow> Some (last ms))"

section \<open>A host, an engine and a sheet for the examples\<close>

text \<open>
  A host in the time zone UTC, used in the examples only. Its \<open>Number\<close> is the
  conversion on the strings of decimal digits and on the empty string; every other
  string is taken as \<^verbatim>\<open>NaN\<close>, which is less than \<^verbatim>\<open>Number\<close> accepts (signs, fractions,
  exponents, white space, other bases), so the examples use digit strings. Its date
  constructor cuts its arguments to whole numbers, takes a year from 0 to 99 as 1900 to
  1999, follows the day arithmetic of the civil calendar and gives an invalid date
  beyond 8.64e15 milliseconds on either side of the epoch.

  Its finder has the criterion the platform documents for a \<^verbatim>\<open>TextFinder\<close> with no
  option set: the search text occurs in the text of the cell, upper and lower case taken
  as equal (\<^verbatim>\<open>matchEntireCell\<close> and \<^verbatim>\<open>matchCase\<close> are off). Only text cells are looked at
  here.
\<close>

definition plainNumber :: "string \<Rightarrow> jsnum" where
  "plainNumber s =
     (if s = [] then Fin 0
      else if list_all (\<lambda>c. c \<in> set ''0123456789'') s
      then Fin (of_nat (foldl (\<lambda>a c. 10 * a + (of_char c - 48)) 0 s))
      else NaN)"

definition daysFromCivil :: "int \<Rightarrow> int \<Rightarrow> int \<Rightarrow> int" where
  "daysFromCivil y m d =
     (let y' = (if m \<le> 2 then y - 1 else y);
          era = y' div 400;
          yoe = y' - era * 400;
          doy = (153 * ((m + 9) mod 12) + 2) div 5 + d - 1;
          doe = yoe * 365 + yoe div 4 - yoe div 100 + doy
      in era * 146097 + doe - 719468)"

definition toInteger :: "rat \<Rightarrow> int" where
  "toInteger q = (if 0 \<le> q then \<lfloor>q\<rfloor> else \<lceil>q\<rceil>)"

definition utcNewDate :: "jsnum \<Rightarrow> jsnum \<Rightarrow> jsnum \<Rightarrow> jsdate" where
  "utcNewDate y m d =
     (case y of
        Fin yq \<Rightarrow>
          (case m of
             Fin mq \<Rightarrow>
               (case d of
                  Fin dq \<Rightarrow>
                    (let yi = toInteger yq;
                         yf = (if 0 \<le> yi \<and> yi \<le> 99 then 1900 + yi else yi);
                         mi = toInteger mq;
                         ms = 86400000 *
                           (daysFromCivil (yf + mi div 12) (mi mod 12 + 1) 1 + toInteger dq - 1)
                     in if - 8640000000000000 \<le> ms \<and> ms \<le> 8640000000000000
                        then Some ms else None)
                | _ \<Rightarrow> None)
           | _ \<Rightarrow> None)
      | _ \<Rightarrow> None)"

definition utcMidnight :: "int \<Rightarrow> jsdate" where
  "utcMidnight ms = Some (ms - ms mod 86400000)"

definition occursIn :: "string \<Rightarrow> string \<Rightarrow> bool" where
  "occursIn findText s = list_ex (\<lambda>t. matchPrefixCI findText t \<noteq> None) (suffixes s)"

definition defaultFinder :: "string \<Rightarrow> cell \<Rightarrow> bool" where
  "defaultFinder findText v =
     (case v of
        CText s \<Rightarrow> findText \<noteq> [] \<and> occursIn findText s
      | _ \<Rightarrow> False)"

definition exampleHost :: host where
  "exampleHost =
     \<lparr>jsNumber = plainNumber, newDate = utcNewDate, setHoursZero = utcMidnight,
      finderMatches = defaultFinder\<rparr>"

text \<open>An engine whose parser knows the three bodies of the examples.\<close>

definition exampleEngine :: engine where
  "exampleEngine =
     \<lparr>jsonParse = (\<lambda>s. case map_of
          [(''{\"image\":5}'', JObj [(''image'', JNum (Fin 5))]),
           (''{}'', JObj []),
           (''{\"candidates\":[]}'', JObj [(''candidates'', JArr [])])] s of
            Some v \<Rightarrow> Inr v
          | None \<Rightarrow> Inl SyntaxError),
      otherToString = (\<lambda>v. ''[object Object]''),
      errorText = (\<lambda>e. case e of
          Error m \<Rightarrow> ''Error: '' @ m
        | TypeError \<Rightarrow> ''TypeError''
        | SyntaxError \<Rightarrow> ''SyntaxError''
        | RangeError \<Rightarrow> ''RangeError''
        | ServiceException \<Rightarrow> ''Exception'')\<rparr>"

text \<open>
  A weekly sheet: the week of 01/05/2026 is marked in B1 (at nine in the morning) and
  again in B2; the labels are in column A of rows 2 to 5.
\<close>

definition exampleSheet :: sheet where
  "exampleSheet =
     \<lparr>sheetName = ''Weekly View'',
      cells =
        [((1, 1), CText ''WEEK''),
         ((1, 2), CDate (Some 1767603600000)),
         ((2, 1), CText ''Weight (lbs)''),
         ((2, 2), CDate (Some 1767571200000)),
         ((3, 1), CText ''Run (miles)''),
         ((3, 3), CNumber (Fin 9)),
         ((4, 1), CText ''Run''),
         ((5, 1), CText ''Flossing'')]\<rparr>"

definition exampleData :: extraction where
  "exampleData =
     \<lparr>week_start_date = Some ''01/05/2026'',
      data = Some
        [\<lparr>habit = ''Flossing'', vals = Some [Some (Fin 1), Some (Fin 0), None]\<rparr>,
         \<lparr>habit = ''Yoga'', vals = Some [Some (Fin 1)]\<rparr>,
         \<lparr>habit = ''Weight'', vals = None\<rparr>]\<rparr>"

definition noStringify :: "extraction \<Rightarrow> string" where
  "noStringify d = ''{}''"


section \<open>Lemmas on the fence patterns\<close>

lemma canon_bt[simp]: "canonicalize c = canonicalize backtick \<longleftrightarrow> c = backtick"
  by (auto simp: canonicalize_def backtick_def split: option.splits if_splits)

lemma bt_canon[simp]: "canonicalize backtick = canonicalize c \<longleftrightarrow> c = backtick"
  using canon_bt[of c] by metis

lemma match_fence: "matchPrefixCI fence s = Some r \<longleftrightarrow> s = fence @ r"
  by (cases s; cases "tl s"; cases "tl (tl s)") (auto simp: fence_def)

lemma match_fence_None: "matchPrefixCI fence s = None \<longleftrightarrow> \<not> prefix fence s"
proof -
  have "matchPrefixCI fence s \<noteq> None \<longleftrightarrow> prefix fence s"
    using match_fence[of s] by (auto simp: prefix_def)
  then show ?thesis by blast
qed

lemma bt_not_ws[simp]: "\<not> isWhiteSpace backtick"
  by (simp add: isWhiteSpace_def backtick_def)

lemma nl_ws[simp]: "isWhiteSpace newline"
  by (simp add: isWhiteSpace_def newline_def)

lemma match_fenceJson_prefix: "matchPrefixCI fenceJson s = Some r \<Longrightarrow> prefix fence s"
  by (cases s; cases "tl s"; cases "tl (tl s)") (auto simp: fence_def fenceJson_def split: if_splits)

lemma match_fenceJson_json: "matchPrefixCI fenceJson (fenceJson @ r) = Some r"
  by (simp add: fenceJson_def fence_def)

lemma match_fenceJson_nl: "matchPrefixCI fenceJson (fence @ newline # r) = None"
  by (simp add: fenceJson_def fence_def newline_def canonicalize_def)

lemma rev_fence[simp]: "rev fence = fence"
  by (simp add: fence_def)

lemma replaceFenceEnd_app[simp]: "replaceFenceEnd (x @ fence) = x"
proof -
  have "matchPrefixCI fence (rev (x @ fence)) = Some (rev x)"
    by (simp add: match_fence)
  then show ?thesis by (simp add: replaceFenceEnd_def)
qed

lemma replaceFenceEnd_id: "\<not> suffix fence s \<Longrightarrow> replaceFenceEnd s = s"
proof -
  assume a: "\<not> suffix fence s"
  have "\<not> prefix fence (rev s)"
  proof
    assume "prefix fence (rev s)"
    then have "suffix (rev fence) s" by (metis suffix_to_prefix rev_rev_ident)
    with a show False by simp
  qed
  then show ?thesis by (simp add: replaceFenceEnd_def match_fence_None[symmetric])
qed

lemma replaceFence_id: "\<not> prefix fence s \<Longrightarrow> replaceFence s = s"
  by (simp add: replaceFence_def match_fence_None[symmetric])

lemma replaceFence_app[simp]: "replaceFence (fence @ r) = dropWhile isWhiteSpace r"
proof -
  have "matchPrefixCI fence (fence @ r) = Some r" by (simp add: match_fence)
  then show ?thesis by (simp add: replaceFence_def)
qed

lemma replaceFenceJson_id: "\<not> prefix fence s \<Longrightarrow> replaceFenceJson s = s"
  using match_fenceJson_prefix[of s] by (auto simp: replaceFenceJson_def split: option.splits)

lemma replaceFenceJson_app[simp]: "replaceFenceJson (fenceJson @ r) = dropWhile isWhiteSpace r"
  by (simp add: replaceFenceJson_def match_fenceJson_json)

lemma replaceFenceJson_nl[simp]: "replaceFenceJson (fence @ newline # r) = fence @ newline # r"
  by (simp add: replaceFenceJson_def match_fenceJson_nl)

subsection \<open>Trimming\<close>

lemma trimEnd_snoc_ws: "isWhiteSpace c \<Longrightarrow> trimEnd (x @ [c]) = trimEnd x"
  by (simp add: trimEnd_def)

lemma trimEnd_app_nonws: "\<not> isWhiteSpace c \<Longrightarrow> trimEnd (x @ c # y) = x @ c # trimEnd y"
  by (simp add: trimEnd_def dropWhile_append)

lemma trimEnd_split: "\<exists>w. (\<forall>c\<in>set w. isWhiteSpace c) \<and> s = trimEnd s @ w"
proof -
  have "rev s = takeWhile isWhiteSpace (rev s) @ dropWhile isWhiteSpace (rev s)" by simp
  then have "s = rev (dropWhile isWhiteSpace (rev s)) @ rev (takeWhile isWhiteSpace (rev s))"
    by (metis rev_append rev_rev_ident)
  moreover have "\<forall>c\<in>set (rev (takeWhile isWhiteSpace (rev s))). isWhiteSpace c"
    by (auto dest: set_takeWhileD)
  ultimately show ?thesis unfolding trimEnd_def by blast
qed

lemma trimStart_hd: "trimStart s \<noteq> [] \<Longrightarrow> \<not> isWhiteSpace (hd (trimStart s))"
  unfolding trimStart_def by (rule hd_dropWhile)

lemma trim_hd: "trim s \<noteq> [] \<Longrightarrow> \<not> isWhiteSpace (hd (trim s))"
proof -
  assume a: "trim s \<noteq> []"
  obtain w where w: "trimStart s = trim s @ w"
    using trimEnd_split[of "trimStart s"] unfolding trim_def by blast
  with a have "hd (trimStart s) = hd (trim s)" "trimStart s \<noteq> []" by auto
  then show ?thesis using trimStart_hd[of s] by simp
qed

lemma trim_Nil_iff: "trim s = [] \<longleftrightarrow> (\<forall>c\<in>set s. isWhiteSpace c)"
proof
  assume "trim s = []"
  then have "\<forall>c\<in>set (trimStart s). isWhiteSpace c"
    using trimEnd_split[of "trimStart s"] unfolding trim_def by (metis append_Nil)
  then have "trimStart s = []"
    using trimStart_hd[of s] by (metis hd_in_set)
  then show "\<forall>c\<in>set s. isWhiteSpace c"
    by (simp add: trimStart_def)
next
  assume "\<forall>c\<in>set s. isWhiteSpace c"
  then have "trimStart s = []" by (simp add: trimStart_def)
  then show "trim s = []" by (simp add: trim_def trimEnd_def)
qed

lemma prefix_fence_trim: "prefix fence s \<Longrightarrow> prefix fence (trim s)"
proof -
  assume "prefix fence s"
  then obtain r where s: "s = backtick # backtick # backtick # r"
    by (auto simp: prefix_def fence_def)
  have "trimStart s = s" by (simp add: s trimStart_def)
  moreover have "trimEnd s = backtick # backtick # backtick # trimEnd r"
    using trimEnd_app_nonws[of backtick "[backtick, backtick]" r] by (simp add: s)
  ultimately show ?thesis by (simp add: trim_def fence_def)
qed

lemma suffix_fence_trim: "suffix fence s \<Longrightarrow> suffix fence (trim s)"
proof -
  assume "suffix fence s"
  then obtain x where s: "s = x @ fence" by (auto simp: suffix_def)
  have "\<exists>y. trimStart s = y @ fence"
  proof (cases "\<forall>c\<in>set x. isWhiteSpace c")
    case True
    then have "trimStart s = fence" by (simp add: s trimStart_def dropWhile_append fence_def)
    then show ?thesis by simp
  next
    case False
    then have "trimStart s = dropWhile isWhiteSpace x @ fence"
      by (auto simp: s trimStart_def dropWhile_append)
    then show ?thesis by blast
  qed
  then obtain y where y: "trimStart s = y @ fence" by blast
  have "trimEnd (y @ fence) = y @ fence"
    using trimEnd_app_nonws[of backtick "y @ [backtick, backtick]" "[]"]
    by (simp add: fence_def trimEnd_def)
  then show ?thesis by (simp add: trim_def y suffix_def)
qed

lemma clean_raw: "fenceFree t \<Longrightarrow> cleanTextResponse t = trim t"
proof -
  assume ff: "fenceFree t"
  then have p: "\<not> prefix fence t" and s: "\<not> suffix fence t"
    using prefix_fence_trim[of t] suffix_fence_trim[of t] by (auto simp: fenceFree_def)
  show ?thesis
    by (simp add: cleanTextResponse_def replaceFenceJson_id[OF p] replaceFence_id[OF p]
        replaceFenceEnd_id[OF s])
qed

subsection \<open>A fenced text\<close>

text \<open>The text between the fences, after the leading pattern consumed the white space.\<close>

lemma drop_inner_ws:
  "trim t = [] \<Longrightarrow> dropWhile isWhiteSpace (t @ newline # fence) = fence"
  by (simp add: trim_Nil_iff dropWhile_append fence_def)

lemma drop_inner:
  "trim t \<noteq> [] \<Longrightarrow>
   dropWhile isWhiteSpace (t @ newline # fence) = trimStart t @ newline # fence"
  by (auto simp: trim_Nil_iff dropWhile_append trimStart_def)

lemma inner_no_fence:
  assumes ne: "trim t \<noteq> []" and np: "\<not> prefix fence (trim t)"
  shows "\<not> prefix fence (trimStart t @ newline # fence)"
proof
  assume pf: "prefix fence (trimStart t @ newline # fence)"
  obtain w where w: "\<forall>c\<in>set w. isWhiteSpace c" "trimStart t = trim t @ w"
    using trimEnd_split[of "trimStart t"] unfolding trim_def by blast
  from pf have "prefix fence (trim t @ (w @ newline # fence))" by (simp add: w)
  then obtain us where us: "fence = trim t @ us" "prefix us (w @ newline # fence)"
    using np by (auto simp: prefix_append)
  from us(1) np have "us \<noteq> []" by auto
  then obtain u us' where u: "us = u # us'" by (cases us) auto
  have "u \<in> set fence" by (simp add: us(1) u)
  then have "u = backtick" by (simp add: fence_def)
  moreover have "u = hd (w @ newline # fence)"
    using us(2) u by (auto simp: prefix_def)
  moreover have "isWhiteSpace (hd (w @ newline # fence))"
    using w(1) by (cases w) auto
  ultimately show False by simp
qed

lemma trim_inner: "trim t \<noteq> [] \<Longrightarrow> trim (trimStart t @ [newline]) = trim t"
proof -
  assume ne: "trim t \<noteq> []"
  then have ne': "trimStart t \<noteq> []" by (auto simp: trim_def trimEnd_def)
  then have "\<not> isWhiteSpace (hd (trimStart t))" by (rule trimStart_hd)
  with ne' have "trimStart (trimStart t @ [newline]) = trimStart t @ [newline]"
    by (cases "trimStart t") (auto simp: trimStart_def)
  then show ?thesis by (simp add: trim_def trimEnd_snoc_ws)
qed

lemma clean_after_open:
  assumes "\<not> prefix fence (trim t)"
  shows "trim (replaceFenceEnd (replaceFence
           (dropWhile isWhiteSpace (newline # t @ newline # fence)))) = trim t"
proof (cases "trim t = []")
  case True
  have "replaceFence fence = []" using replaceFence_app[of "[]"] by simp
  moreover have "replaceFenceEnd [] = []" by (simp add: replaceFenceEnd_def fence_def)
  moreover have "trim [] = []" by (simp add: trim_def trimStart_def trimEnd_def)
  ultimately show ?thesis using True by (simp add: drop_inner_ws)
next
  case False
  have "replaceFenceEnd ((trimStart t @ [newline]) @ fence) = trimStart t @ [newline]"
    by (rule replaceFenceEnd_app)
  then show ?thesis
    using False by (simp add: drop_inner replaceFence_id[OF inner_no_fence[OF False assms]] trim_inner)
qed

lemma clean_json_fenced:
  "fenceFree t \<Longrightarrow> cleanTextResponse (fenceJson @ newline # t @ newline # fence) = trim t"
  using clean_after_open[of t] by (simp add: cleanTextResponse_def fenceFree_def)

lemma clean_plain_fenced:
  assumes "fenceFree t"
  shows "cleanTextResponse (fence @ newline # t @ newline # fence) = trim t"
proof (cases "trim t = []")
  case True
  have "replaceFenceEnd fence = []" using replaceFenceEnd_app[of "[]"] by simp
  moreover have "trim [] = []" by (simp add: trim_def trimStart_def trimEnd_def)
  ultimately show ?thesis using True by (simp add: cleanTextResponse_def drop_inner_ws)
next
  case False
  have np: "\<not> prefix fence (trimStart t @ newline # fence)"
    using inner_no_fence[OF False] assms by (simp add: fenceFree_def)
  have e: "replaceFenceEnd ((trimStart t @ [newline]) @ fence) = trimStart t @ [newline]"
    by (rule replaceFenceEnd_app)
  show ?thesis
    using False e by (simp add: cleanTextResponse_def drop_inner trim_inner)
qed

section \<open>Lemmas on the sheet and the loop\<close>

subsection \<open>The value window and the extent of the content\<close>

declare pushNulls.simps [simp del]

lemma pushNulls_eq: "pushNulls xs = xs @ replicate (7 - length xs) None"
proof (induction xs rule: pushNulls.induct)
  case (1 rowValues)
  show ?case
  proof (cases "length rowValues < 7")
    case True
    then have "pushNulls rowValues = pushNulls (rowValues @ [None])"
      by (subst pushNulls.simps) simp
    also have "\<dots> = (rowValues @ [None]) @ replicate (7 - length (rowValues @ [None])) None"
      using 1 True by simp
    also have "\<dots> = rowValues @ replicate (7 - length rowValues) None"
      using True by (simp add: replicate_append_same Suc_diff_Suc flip: replicate_Suc)
    finally show ?thesis .
  next
    case False
    then show ?thesis by (subst pushNulls.simps) simp
  qed
qed

lemma rowValuesOf_eq:
  "rowValuesOf item =
     take 7 (case vals item of None \<Rightarrow> [] | Some vs \<Rightarrow> vs)
       @ replicate (7 - length (case vals item of None \<Rightarrow> [] | Some vs \<Rightarrow> vs)) None"
  by (simp add: rowValuesOf_def Let_def pushNulls_eq)

lemma length_rowValuesOf: "length (rowValuesOf item) = 7"
  by (simp add: rowValuesOf_eq)

lemma foldr_max_ge: "x \<in> set xs \<Longrightarrow> x \<le> foldr max xs (0::nat)"
  by (induction xs) (auto simp: max_def)

lemma content_position:
  assumes "cellAt s r c \<noteq> Blank"
  shows "(r, c) \<in> set (contentPositions s)"
proof -
  from assms obtain v where "map_of (cells s) (r, c) = Some v"
    by (auto simp: cellAt_def split: if_splits option.splits)
  then have "((r, c), v) \<in> set (cells s)" by (rule map_of_SomeD)
  then have "(r, c) \<in> set (map fst (cells s))" by force
  with assms show ?thesis by (simp add: contentPositions_def)
qed

lemma content_within:
  assumes "cellAt s r c \<noteq> Blank"
  shows "1 \<le> r \<and> r \<le> getLastRow s \<and> 1 \<le> c \<and> c \<le> getLastColumn s"
proof -
  have p: "(r, c) \<in> set (contentPositions s)" using assms by (rule content_position)
  then have "r \<in> set (map fst (contentPositions s))" "c \<in> set (map snd (contentPositions s))"
    by force+
  then have "r \<le> getLastRow s \<and> c \<le> getLastColumn s"
    unfolding getLastRow_def getLastColumn_def using foldr_max_ge by blast
  moreover have "1 \<le> r \<and> 1 \<le> c"
    using assms by (auto simp: cellAt_def split: if_splits)
  ultimately show ?thesis by simp
qed

subsection \<open>Writing the seven cells of a row\<close>

lemma map_of_row:
  assumes "length vs = n"
  shows "map_of (zip (map (\<lambda>j. (r, j)) [a ..< a + n]) vs) (i, j)
           = (if i = r \<and> a \<le> j \<and> j < a + n then Some (vs ! (j - a)) else None)"
proof -
  let ?ps = "map (\<lambda>j. (r, j)) [a ..< a + n]"
  have l: "length ?ps = length vs" using assms by simp
  show ?thesis
  proof (cases "i = r \<and> a \<le> j \<and> j < a + n")
    case True
    have d: "distinct ?ps" by (simp add: distinct_map inj_on_def)
    have k: "j - a < length vs" using True assms by auto
    have "?ps ! (j - a) = (i, j)" using True by auto
    then show ?thesis using map_of_zip_nth[OF l d k] True by simp
  next
    case False
    have "(i, j) \<notin> set ?ps" using False by auto
    then have "map_of (zip ?ps vs) (i, j) = None"
      using map_of_zip_is_None[OF l] by blast
    then show ?thesis using False by simp
  qed
qed

lemma cellAt_cong:
  "map_of (cells s') (i, j) = map_of (cells s) (i, j) \<Longrightarrow> cellAt s' i j = cellAt s i j"
  by (simp add: cellAt_def)

lemma setValues_one_row:
  assumes "length vs = n" and "rangeRow rg = r" and "rangeColumn rg = a"
    and "numRows rg = Suc 0" and "numColumns rg = n" and "1 \<le> r" and "1 \<le> a"
  shows "\<exists>s'. setValues s rg [vs] = Inr s'
            \<and> sheetName s' = sheetName s
            \<and> (\<forall>i j. cellAt s' i j
                  = (if i = r \<and> a \<le> j \<and> j < a + n then vs ! (j - a) else cellAt s i j))"
proof -
  let ?ps = "map (\<lambda>j. (r, j)) [a ..< a + n]"
  let ?s' = "s\<lparr>cells := zip ?ps vs @ cells s\<rparr>"
  have p: "rangePositions rg = ?ps"
    by (simp add: rangePositions_def assms)
  have e: "setValues s rg [vs] = Inr ?s'"
    by (simp add: setValues_def p assms)
  have "cellAt ?s' i j = (if i = r \<and> a \<le> j \<and> j < a + n then vs ! (j - a) else cellAt s i j)"
    for i j
  proof (cases "i = r \<and> a \<le> j \<and> j < a + n")
    case True
    then have "map_of (zip ?ps vs @ cells s) (i, j) = Some (vs ! (j - a))"
      using map_of_row[OF assms(1), of r a i j] by simp
    then show ?thesis using True assms(6,7) by (simp add: cellAt_def)
  next
    case False
    then have "map_of (zip ?ps vs) (i, j) = None"
      using map_of_row[OF assms(1), of r a i j] by auto
    then have "map_of (cells ?s') (i, j) = map_of (cells s) (i, j)"
      by (simp add: map_add_def)
    then have "cellAt ?s' i j = cellAt s i j" by (rule cellAt_cong)
    then show ?thesis using False by auto
  qed
  with e show ?thesis by simp
qed

lemma getRange_row: "1 \<le> r \<Longrightarrow> getRange r 3 1 7 = Inr (rowRange r)"
  by (simp add: getRange_def rowRange_def)

lemma setValues_row:
  assumes "length vs = 7" "1 \<le> r"
  shows "\<exists>s'. setValues s (rowRange r) [vs] = Inr s'
            \<and> sheetName s' = sheetName s
            \<and> (\<forall>i j. cellAt s' i j
                  = (if i = r \<and> 3 \<le> j \<and> j \<le> 9 then vs ! (j - 3) else cellAt s i j))"
proof -
  have "\<exists>s'. setValues s (rowRange r) [vs] = Inr s'
            \<and> sheetName s' = sheetName s
            \<and> (\<forall>i j. cellAt s' i j
                  = (if i = r \<and> 3 \<le> j \<and> j < 3 + 7 then vs ! (j - 3) else cellAt s i j))"
    using assms by (intro setValues_one_row) (simp_all add: rowRange_def)
  moreover have "(j < 3 + 7) = (j \<le> 9)" for j :: nat by auto
  ultimately show ?thesis by simp
qed

subsection \<open>One step of the loop\<close>

lemma updateEntry_None:
  "findNext h (fst st) rg (habit item) = None \<Longrightarrow> updateEntry h rg item st = Inr st"
  by (simp add: updateEntry_def)

lemma updateEntry_Some:
  assumes "findNext h (fst st) rg (habit item) = Some (r, c)" "1 \<le> r"
  shows "\<exists>s'. updateEntry h rg item st = Inr (s', snd st + 1)
            \<and> sheetName s' = sheetName (fst st)
            \<and> (\<forall>i j. cellAt s' i j
                  = (if i = r \<and> 3 \<le> j \<and> j \<le> 9
                     then cellOfValue (rowValuesOf item ! (j - 3))
                     else cellAt (fst st) i j))"
proof -
  let ?vs = "map cellOfValue (rowValuesOf item)"
  have l: "length ?vs = 7" by (simp add: length_rowValuesOf)
  obtain s' where s': "setValues (fst st) (rowRange r) [?vs] = Inr s'"
     "sheetName s' = sheetName (fst st)"
     "\<forall>i j. cellAt s' i j = (if i = r \<and> 3 \<le> j \<and> j \<le> 9 then ?vs ! (j - 3) else cellAt (fst st) i j)"
    using setValues_row[OF l assms(2), of "fst st"] by blast
  have g: "getRange r 3 1 7 = Inr (rowRange r)"
    using assms(2) by (rule getRange_row)
  have u: "updateEntry h rg item st = Inr (s', snd st + 1)"
    by (simp add: updateEntry_def assms(1) g andThen_def s'(1))
  have "?vs ! (j - 3) = cellOfValue (rowValuesOf item ! (j - 3))" if "3 \<le> j \<and> j \<le> 9" for j
  proof -
    have "j - 3 < length (rowValuesOf item)" using that by (auto simp: length_rowValuesOf)
    then show ?thesis by (rule nth_map)
  qed
  with s'(3) have "\<forall>i j. cellAt s' i j
                  = (if i = r \<and> 3 \<le> j \<and> j \<le> 9
                     then cellOfValue (rowValuesOf item ! (j - 3))
                     else cellAt (fst st) i j)" by simp
  with u s'(2) show ?thesis by blast
qed

subsection \<open>Lookups in the label column\<close>

lemma find_map_pos: "find P (map f xs) = map_option f (find (\<lambda>x. P (f x)) xs)"
  by (induction xs) auto

lemma rangePositions_label:
  assumes "rangeColumn rg = 1" "numColumns rg = 1"
  shows "rangePositions rg = map (\<lambda>i. (i, 1)) [rangeRow rg ..< rangeRow rg + numRows rg]"
  by (simp add: rangePositions_def assms)

lemma findNext_label:
  assumes "rangeColumn rg = 1" "numColumns rg = 1"
  shows "findNext h s rg name
           = map_option (\<lambda>i. (i, 1))
               (find (\<lambda>i. finderMatches h name (cellAt s i 1))
                  [rangeRow rg ..< rangeRow rg + numRows rg])"
  by (simp add: findNext_def rangePositions_label[OF assms] find_map_pos)

lemma findNext_label_cong:
  assumes "rangeColumn rg = 1" "numColumns rg = 1" "\<forall>i. cellAt s' i 1 = cellAt s i 1"
  shows "findNext h s' rg name = findNext h s rg name"
  using assms(3) by (simp add: findNext_label[OF assms(1,2)])

lemma find_upt_Some:
  "find P [a ..< b] = Some r \<longleftrightarrow> a \<le> r \<and> r < b \<and> P r \<and> (\<forall>i. a \<le> i \<and> i < r \<longrightarrow> \<not> P i)"
proof
  assume "find P [a ..< b] = Some r"
  then obtain k where k: "k < length [a ..< b]" "P ([a ..< b] ! k)" "r = [a ..< b] ! k"
    "\<forall>j<k. \<not> P ([a ..< b] ! j)"
    unfolding find_Some_iff by blast
  from k(1) have kb: "a + k < b" by simp
  with k(3) have r: "r = a + k" by simp
  have "\<not> P i" if "a \<le> i \<and> i < r" for i
  proof -
    have "i - a < k" using that r by auto
    moreover have "[a ..< b] ! (i - a) = i" using that r kb by auto
    ultimately show ?thesis using k(4) by metis
  qed
  with k(2) r kb show "a \<le> r \<and> r < b \<and> P r \<and> (\<forall>i. a \<le> i \<and> i < r \<longrightarrow> \<not> P i)"
    by auto
next
  assume a: "a \<le> r \<and> r < b \<and> P r \<and> (\<forall>i. a \<le> i \<and> i < r \<longrightarrow> \<not> P i)"
  have "r - a < length [a ..< b]" using a by auto
  moreover have "[a ..< b] ! (r - a) = r" using a by auto
  moreover have "\<forall>j<r - a. \<not> P ([a ..< b] ! j)"
  proof (intro allI impI)
    fix j assume "j < r - a"
    then have "[a ..< b] ! j = a + j" "a \<le> a + j \<and> a + j < r" using a by auto
    then show "\<not> P ([a ..< b] ! j)" using a by metis
  qed
  ultimately show "find P [a ..< b] = Some r"
    unfolding find_Some_iff using a by metis
qed

lemma find_upt_None:
  "find P [a ..< b] = None \<longleftrightarrow> (\<forall>i. a \<le> i \<and> i < b \<longrightarrow> \<not> P i)"
  by (auto simp: find_None_iff)

lemma findNext_label_Some:
  assumes "rangeColumn rg = 1" "numColumns rg = 1"
  shows "findNext h s rg name = Some (r, c) \<longleftrightarrow>
           c = 1 \<and> rangeRow rg \<le> r \<and> r < rangeRow rg + numRows rg
           \<and> finderMatches h name (cellAt s r 1)
           \<and> (\<forall>i. rangeRow rg \<le> i \<and> i < r \<longrightarrow> \<not> finderMatches h name (cellAt s i 1))"
  unfolding findNext_label[OF assms]
  using find_upt_Some[of "\<lambda>i. finderMatches h name (cellAt s i 1)" "rangeRow rg"
      "rangeRow rg + numRows rg" r]
  by auto

lemma findNext_label_None:
  assumes "rangeColumn rg = 1" "numColumns rg = 1"
  shows "findNext h s rg name = None \<longleftrightarrow>
           (\<forall>i. rangeRow rg \<le> i \<and> i < rangeRow rg + numRows rg
                 \<longrightarrow> \<not> finderMatches h name (cellAt s i 1))"
  unfolding findNext_label[OF assms]
  using find_upt_None[of "\<lambda>i. finderMatches h name (cellAt s i 1)" "rangeRow rg"
      "rangeRow rg + numRows rg"]
  by auto

subsection \<open>The loop\<close>

lemma lastWrite_Nil: "lastWrite h s rg [] r = None"
  by (simp add: lastWrite_def)

lemma lastWrite_Cons:
  "lastWrite h s rg (e # es) r =
     (case lastWrite h s rg es r of
        Some e' \<Rightarrow> Some e'
      | None \<Rightarrow> if findNext h s rg (habit e) = Some (r, 1) then Some e else None)"
  by (auto simp: lastWrite_def split: list.splits)

lemma forEach_spec:
  assumes col: "rangeColumn rg = 1" "numColumns rg = 1" "1 \<le> rangeRow rg"
  shows "(\<forall>i. cellAt s i 1 = cellAt s0 i 1) \<Longrightarrow>
         \<exists>s'. forEach h rg items (s, n)
                 = Inr (s', n + length (filter (matched h s0 rg) items))
            \<and> sheetName s' = sheetName s
            \<and> (\<forall>i j. cellAt s' i j =
                 (case lastWrite h s0 rg items i of
                    None \<Rightarrow> cellAt s i j
                  | Some e \<Rightarrow> if 3 \<le> j \<and> j \<le> 9
                              then cellOfValue (rowValuesOf e ! (j - 3))
                              else cellAt s i j))"
proof (induction items arbitrary: s n)
  case Nil
  then show ?case by (simp add: lastWrite_Nil)
next
  case (Cons item items)
  have same: "findNext h s rg (habit item) = findNext h s0 rg (habit item)"
    using findNext_label_cong[OF col(1,2)] Cons.prems by blast
  show ?case
  proof (cases "findNext h s0 rg (habit item)")
    case None
    then have u: "updateEntry h rg item (s, n) = Inr (s, n)"
      using same by (simp add: updateEntry_None)
    have nm: "\<not> matched h s0 rg item" using None by (simp add: matched_def)
    have lw: "lastWrite h s0 rg (item # items) i = lastWrite h s0 rg items i" for i
      using None by (simp add: lastWrite_Cons split: option.splits)
    from Cons.IH[OF Cons.prems, of n] show ?thesis
      by (simp add: u andThen_def nm lw)
  next
    case (Some p)
    obtain r c where p: "p = (r, c)" by (cases p)
    have rc: "c = 1" "1 \<le> r"
      using Some p findNext_label_Some[OF col(1,2), of h s0 "habit item" r c] col(3) by auto
    obtain s1 where s1: "updateEntry h rg item (s, n) = Inr (s1, n + 1)"
      "sheetName s1 = sheetName s"
      "\<forall>i j. cellAt s1 i j = (if i = r \<and> 3 \<le> j \<and> j \<le> 9
                     then cellOfValue (rowValuesOf item ! (j - 3))
                     else cellAt s i j)"
      using updateEntry_Some[of h "(s, n)" rg item r c] same Some p rc(2) by auto
    have lab1: "\<forall>i. cellAt s1 i 1 = cellAt s0 i 1"
      using s1(3) Cons.prems by simp
    obtain s' where s': "forEach h rg items (s1, n + 1)
                 = Inr (s', n + 1 + length (filter (matched h s0 rg) items))"
      "sheetName s' = sheetName s1"
      "\<forall>i j. cellAt s' i j =
                 (case lastWrite h s0 rg items i of
                    None \<Rightarrow> cellAt s1 i j
                  | Some e \<Rightarrow> if 3 \<le> j \<and> j \<le> 9
                              then cellOfValue (rowValuesOf e ! (j - 3))
                              else cellAt s1 i j)"
      using Cons.IH[OF lab1, of "n + 1"] by blast
    have m: "matched h s0 rg item" using Some by (simp add: matched_def)
    have f: "forEach h rg (item # items) (s, n)
               = Inr (s', n + length (filter (matched h s0 rg) (item # items)))"
      using s'(1) by (simp add: s1(1) andThen_def m)
    have nm: "sheetName s' = sheetName s" using s'(2) s1(2) by simp
    have c: "cellAt s' i j =
                 (case lastWrite h s0 rg (item # items) i of
                    None \<Rightarrow> cellAt s i j
                  | Some e \<Rightarrow> if 3 \<le> j \<and> j \<le> 9
                              then cellOfValue (rowValuesOf e ! (j - 3))
                              else cellAt s i j)" for i j
      using s'(3) s1(3) Some p rc(1)
      by (auto simp: lastWrite_Cons split: option.splits)
    from f nm c show ?thesis by blast
  qed
qed

lemma forEach_filter:
  assumes col: "rangeColumn rg = 1" "numColumns rg = 1" "1 \<le> rangeRow rg"
  shows "(\<forall>i. cellAt s i 1 = cellAt s0 i 1) \<Longrightarrow>
         forEach h rg (filter (matched h s0 rg) items) (s, n) = forEach h rg items (s, n)"
proof (induction items arbitrary: s n)
  case Nil
  then show ?case by simp
next
  case (Cons item items)
  have same: "findNext h s rg (habit item) = findNext h s0 rg (habit item)"
    using findNext_label_cong[OF col(1,2)] Cons.prems by blast
  show ?case
  proof (cases "matched h s0 rg item")
    case False
    then have "findNext h s0 rg (habit item) = None" unfolding matched_def by blast
    then have "updateEntry h rg item (s, n) = Inr (s, n)"
      using same by (simp add: updateEntry_None)
    then show ?thesis using False Cons.IH[OF Cons.prems, of n] by (simp add: andThen_def)
  next
    case True
    then obtain r c where p: "findNext h s0 rg (habit item) = Some (r, c)"
      by (auto simp: matched_def)
    have rc: "1 \<le> r"
      using p findNext_label_Some[OF col(1,2), of h s0 "habit item" r c] col(3) by auto
    obtain s1 where s1: "updateEntry h rg item (s, n) = Inr (s1, n + 1)"
      "\<forall>i j. cellAt s1 i j = (if i = r \<and> 3 \<le> j \<and> j \<le> 9
                     then cellOfValue (rowValuesOf item ! (j - 3))
                     else cellAt s i j)"
      using updateEntry_Some[of h "(s, n)" rg item r c] same p rc by auto
    have lab1: "\<forall>i. cellAt s1 i 1 = cellAt s0 i 1"
      using s1(2) Cons.prems by simp
    show ?thesis using True Cons.IH[OF lab1, of "n + 1"] by (simp add: s1(1) andThen_def)
  qed
qed

declare showNat.simps [simp del]

subsection \<open>The scan for the date\<close>

lemma scanColumns_None:
  "scanColumns h t vs c = None \<longleftrightarrow> (\<forall>v\<in>set vs. \<not> dateMatches h t v)"
  by (induction vs arbitrary: c) auto

lemma scanColumns_Some:
  "scanColumns h t vs c = Some k \<Longrightarrow>
     c \<le> k \<and> k - c < length vs \<and> dateMatches h t (vs ! (k - c))
     \<and> (\<forall>j < k - c. \<not> dateMatches h t (vs ! j))"
proof (induction vs arbitrary: c)
  case Nil
  then show ?case by simp
next
  case (Cons v vs)
  show ?case
  proof (cases "dateMatches h t v")
    case True
    with Cons.prems show ?thesis by simp
  next
    case False
    with Cons.prems have "scanColumns h t vs (Suc c) = Some k" by simp
    from Cons.IH[OF this] have ih: "Suc c \<le> k" "k - Suc c < length vs"
      "dateMatches h t (vs ! (k - Suc c))" "\<forall>j < k - Suc c. \<not> dateMatches h t (vs ! j)"
      by auto
    have e: "k - c = Suc (k - Suc c)" using ih(1) by simp
    have "\<not> dateMatches h t ((v # vs) ! j)" if "j < k - c" for j
      using that False ih(4) e by (cases j) auto
    then show ?thesis using ih e by simp
  qed
qed

lemma scanRows_None:
  "scanRows h t vss r = None \<longleftrightarrow> (\<forall>vs\<in>set vss. \<forall>v\<in>set vs. \<not> dateMatches h t v)"
proof (induction vss arbitrary: r)
  case Nil
  then show ?case by simp
next
  case (Cons vs vss)
  show ?case
  proof (cases "scanColumns h t vs 0")
    case None
    then have "\<forall>v\<in>set vs. \<not> dateMatches h t v" by (simp add: scanColumns_None)
    with None Cons.IH[of "Suc r"] show ?thesis by simp
  next
    case (Some c)
    then have "\<not> (\<forall>v\<in>set vs. \<not> dateMatches h t v)"
      using scanColumns_None[of h t vs 0] by simp
    with Some show ?thesis by simp
  qed
qed

lemma scanRows_Some:
  "scanRows h t vss r = Some m \<Longrightarrow>
     r < row m \<and> row m - Suc r < length vss \<and> 1 \<le> column m
     \<and> column m - 1 < length (vss ! (row m - Suc r))
     \<and> dateMatches h t (vss ! (row m - Suc r) ! (column m - 1))
     \<and> (\<forall>j < column m - 1. \<not> dateMatches h t (vss ! (row m - Suc r) ! j))
     \<and> (\<forall>i < row m - Suc r. \<forall>v\<in>set (vss ! i). \<not> dateMatches h t v)"
proof (induction vss arbitrary: r)
  case Nil
  then show ?case by simp
next
  case (Cons vs vss)
  show ?case
  proof (cases "scanColumns h t vs 0")
    case (Some c)
    with Cons.prems have m: "m = \<lparr>row = r + 1, column = c + 1\<rparr>" by simp
    from scanColumns_Some[OF Some] show ?thesis by (simp add: m)
  next
    case None
    with Cons.prems have "scanRows h t vss (Suc r) = Some m" by simp
    from Cons.IH[OF this] have ih: "Suc r < row m" "row m - Suc (Suc r) < length vss"
      "1 \<le> column m" "column m - 1 < length (vss ! (row m - Suc (Suc r)))"
      "dateMatches h t (vss ! (row m - Suc (Suc r)) ! (column m - 1))"
      "\<forall>j < column m - 1. \<not> dateMatches h t (vss ! (row m - Suc (Suc r)) ! j)"
      "\<forall>i < row m - Suc (Suc r). \<forall>v\<in>set (vss ! i). \<not> dateMatches h t v"
      by auto
    have e: "row m - Suc r = Suc (row m - Suc (Suc r))" using ih(1) by simp
    have "\<forall>v\<in>set ((vs # vss) ! i). \<not> dateMatches h t v" if "i < row m - Suc r" for i
      using that None ih(7) e by (cases i) (auto simp: scanColumns_None)
    then show ?thesis using ih e by simp
  qed
qed

lemma dataRange_rows: "length (getDataRangeValues s) = max 1 (getLastRow s)"
  by (simp add: getDataRangeValues_def)

lemma dataRange_nth:
  assumes "i < max 1 (getLastRow s)"
  shows "length (getDataRangeValues s ! i) = max 1 (getLastColumn s)"
    and "j < max 1 (getLastColumn s) \<Longrightarrow> getDataRangeValues s ! i ! j = cellAt s (Suc i) (Suc j)"
proof -
  have r: "getDataRangeValues s ! i
             = map (\<lambda>c. cellAt s (Suc i) c) [1 ..< Suc (max 1 (getLastColumn s))]"
    unfolding getDataRangeValues_def using assms
    by (subst nth_map) (simp_all del: upt_Suc)
  show "length (getDataRangeValues s ! i) = max 1 (getLastColumn s)"
    by (simp add: r)
  show "j < max 1 (getLastColumn s) \<Longrightarrow> getDataRangeValues s ! i ! j = cellAt s (Suc i) (Suc j)"
    unfolding r by (subst nth_map) (simp_all del: upt_Suc)
qed

lemma dateMatches_content: "dateMatches h t v \<Longrightarrow> v \<noteq> Blank"
  by (auto simp: dateMatches_def)

lemma holdsDate_in_data:
  assumes "holdsDate h s t r c"
  shows "1 \<le> r \<and> r - 1 < max 1 (getLastRow s) \<and> 1 \<le> c \<and> c - 1 < max 1 (getLastColumn s)
         \<and> getDataRangeValues s ! (r - 1) ! (c - 1) = cellAt s r c"
proof -
  have "cellAt s r c \<noteq> Blank"
    using assms dateMatches_content unfolding holdsDate_def by blast
  then have w: "1 \<le> r \<and> r \<le> getLastRow s \<and> 1 \<le> c \<and> c \<le> getLastColumn s"
    by (rule content_within)
  then have i: "r - 1 < max 1 (getLastRow s)" and j: "c - 1 < max 1 (getLastColumn s)"
    by auto
  have "getDataRangeValues s ! (r - 1) ! (c - 1) = cellAt s (Suc (r - 1)) (Suc (c - 1))"
    using dataRange_nth(2)[OF i j] .
  then show ?thesis using w i j by simp
qed

lemma findFirstDateMatch_None:
  "findFirstDateMatch h s t = None \<longleftrightarrow> (\<forall>r c. \<not> holdsDate h s t r c)"
proof
  assume n: "findFirstDateMatch h s t = None"
  show "\<forall>r c. \<not> holdsDate h s t r c"
  proof (intro allI notI)
    fix r c assume hd: "holdsDate h s t r c"
    from holdsDate_in_data[OF hd] have
      i: "r - 1 < length (getDataRangeValues s)" and
      j: "c - 1 < length (getDataRangeValues s ! (r - 1))" and
      e: "getDataRangeValues s ! (r - 1) ! (c - 1) = cellAt s r c"
      by (simp_all add: dataRange_rows dataRange_nth(1))
    have "getDataRangeValues s ! (r - 1) \<in> set (getDataRangeValues s)"
      using i by (rule nth_mem)
    moreover have "cellAt s r c \<in> set (getDataRangeValues s ! (r - 1))"
      using nth_mem[OF j] e by simp
    ultimately have "\<not> dateMatches h (atMidnight h t) (cellAt s r c)"
      using n unfolding findFirstDateMatch_def Let_def scanRows_None by blast
    with hd show False by (simp add: holdsDate_def)
  qed
next
  assume a: "\<forall>r c. \<not> holdsDate h s t r c"
  have "\<not> dateMatches h (atMidnight h t) v"
    if "vs \<in> set (getDataRangeValues s)" "v \<in> set vs" for vs v
  proof -
    from that(1) obtain i where i: "i < length (getDataRangeValues s)"
      "vs = getDataRangeValues s ! i" by (auto simp: in_set_conv_nth)
    from that(2) obtain j where j: "j < length vs" "v = vs ! j"
      by (auto simp: in_set_conv_nth)
    have i': "i < max 1 (getLastRow s)" using i(1) by (simp add: dataRange_rows)
    have j': "j < max 1 (getLastColumn s)" using j(1) i(2) dataRange_nth(1)[OF i'] by simp
    have "v = cellAt s (Suc i) (Suc j)" using dataRange_nth(2)[OF i' j'] i(2) j(2) by simp
    then show ?thesis using a by (simp add: holdsDate_def)
  qed
  then show "findFirstDateMatch h s t = None"
    unfolding findFirstDateMatch_def Let_def scanRows_None by blast
qed

lemma findFirstDateMatch_Some:
  assumes "findFirstDateMatch h s t = Some m"
  shows "1 \<le> row m \<and> 1 \<le> column m \<and> holdsDate h s t (row m) (column m)
         \<and> (\<forall>r c. holdsDate h s t r c \<longrightarrow> \<not> readsBefore (r, c) (row m, column m))"
proof -
  let ?G = "getDataRangeValues s" and ?t = "atMidnight h t"
  from assms have "scanRows h ?t ?G 0 = Some m" by (simp add: findFirstDateMatch_def)
  from scanRows_Some[OF this] have sc: "0 < row m" "row m - 1 < length ?G" "1 \<le> column m"
    "column m - 1 < length (?G ! (row m - 1))"
    "dateMatches h ?t (?G ! (row m - 1) ! (column m - 1))"
    "\<forall>j < column m - 1. \<not> dateMatches h ?t (?G ! (row m - 1) ! j)"
    "\<forall>i < row m - 1. \<forall>v\<in>set (?G ! i). \<not> dateMatches h ?t v"
    by auto
  have i: "row m - 1 < max 1 (getLastRow s)" using sc(2) by (simp add: dataRange_rows)
  have j: "column m - 1 < max 1 (getLastColumn s)" using sc(4) dataRange_nth(1)[OF i] by simp
  have "?G ! (row m - 1) ! (column m - 1) = cellAt s (Suc (row m - 1)) (Suc (column m - 1))"
    using dataRange_nth(2)[OF i j] .
  then have here: "holdsDate h s t (row m) (column m)"
    using sc(1,3,5) by (simp add: holdsDate_def)
  have "\<not> readsBefore (r, c) (row m, column m)" if hd: "holdsDate h s t r c" for r c
  proof
    assume rb: "readsBefore (r, c) (row m, column m)"
    from holdsDate_in_data[OF hd] have
      d: "1 \<le> r" "r - 1 < length ?G" "1 \<le> c" "c - 1 < length (?G ! (r - 1))"
        "?G ! (r - 1) ! (c - 1) = cellAt s r c"
      by (simp_all add: dataRange_rows dataRange_nth(1))
    have dm: "dateMatches h ?t (?G ! (r - 1) ! (c - 1))"
      using hd d(5) by (simp add: holdsDate_def)
    from rb consider "r < row m" | "r = row m" "c < column m"
      by (auto simp: readsBefore_def)
    then show False
    proof cases
      case 1
      then have "r - 1 < row m - 1" using d(1) by simp
      moreover have "?G ! (r - 1) ! (c - 1) \<in> set (?G ! (r - 1))" using d(4) by (rule nth_mem)
      ultimately show False using sc(7) dm by blast
    next
      case 2
      then have "c - 1 < column m - 1" using d(3) by simp
      then show False using sc(6) dm 2(1) by blast
    qed
  qed
  with here sc(1,3) show ?thesis by auto
qed

lemma invalid_date_no_match: "findFirstDateMatch h s None = None"
  by (simp add: findFirstDateMatch_None holdsDate_def dateMatches_def atMidnight_def sameTime_def
      split: cell.splits option.splits)

lemma match_valid_date:
  assumes "findFirstDateMatch h s targetDate = Some m"
  shows "targetDate \<noteq> None"
proof
  assume "targetDate = None"
  then have "findFirstDateMatch h s targetDate = None" by (simp add: invalid_date_no_match)
  with assms show False by simp
qed

lemma match_within:
  assumes "findFirstDateMatch h s t = Some m"
  shows "1 \<le> row m \<and> row m \<le> getLastRow s"
proof -
  have "holdsDate h s t (row m) (column m)"
    using findFirstDateMatch_Some[OF assms] by simp
  then have "cellAt s (row m) (column m) \<noteq> Blank"
    using dateMatches_content unfolding holdsDate_def by blast
  from content_within[OF this] show ?thesis by simp
qed

subsection \<open>The run of \<^verbatim>\<open>updateSheet\<close> once the week is found\<close>

lemma getRange_window:
  assumes "1 \<le> R" "R \<le> getLastRow s"
  shows "getRange R 1 (int (getLastRow s) - int R + 1) 1 = Inr (searchWindow s R)"
proof -
  have "nat (int (getLastRow s) - int R + 1) = getLastRow s + 1 - R" using assms by auto
  then show ?thesis using assms by (simp add: getRange_def searchWindow_def)
qed

lemma window_label:
  "rangeColumn (searchWindow s R) = 1" "numColumns (searchWindow s R) = 1"
  "rangeRow (searchWindow s R) = R" "numRows (searchWindow s R) = getLastRow s + 1 - R"
  by (simp_all add: searchWindow_def)

lemma updateSheet_run:
  assumes "week_start_date dat = Some w" "w \<noteq> []"
    and "findFirstDateMatch h s (parseMmDdYyyy h w) = Some m"
    and "data dat = Some items"
  shows "updateSheet h sf (Some s) (Some dat)
           = andThen (forEach h (searchWindow s (row m)) items (s, 0))
               (\<lambda>st. Inr (successText (snd st) w, fst st))"
proof -
  have g: "getRange (row m) 1 (int (getLastRow s) - int (row m) + 1) 1
             = Inr (searchWindow s (row m))"
    using match_within[OF assms(3)] by (intro getRange_window) auto
  obtain ms where v: "parseMmDdYyyy h w = Some ms"
    using match_valid_date[OF assms(3)] by auto
  show ?thesis
    using assms(3)
    by (simp add: updateSheet_def assms(1,2,4) v Let_def g[unfolded One_nat_def] andThen_def
        successText_def)
qed

lemma updateSheet_result:
  assumes "week_start_date dat = Some w" "w \<noteq> []"
    and "findFirstDateMatch h s (parseMmDdYyyy h w) = Some m"
    and "data dat = Some items"
  shows "\<exists>s'. updateSheet h sf (Some s) (Some dat)
                 = Inr (successText (length (filter (matched h s (searchWindow s (row m))) items)) w, s')
            \<and> sheetName s' = sheetName s
            \<and> (\<forall>i j. cellAt s' i j =
                 (case lastWrite h s (searchWindow s (row m)) items i of
                    None \<Rightarrow> cellAt s i j
                  | Some e \<Rightarrow> if 3 \<le> j \<and> j \<le> 9
                              then cellOfValue (rowValuesOf e ! (j - 3))
                              else cellAt s i j))"
proof -
  let ?rg = "searchWindow s (row m)"
  have r1: "1 \<le> rangeRow ?rg" using match_within[OF assms(3)] by (simp add: window_label)
  have lab: "\<forall>i. cellAt s i 1 = cellAt s i 1" by simp
  from forEach_spec[OF window_label(1,2) r1 lab, of h items 0]
  obtain s' where s': "forEach h ?rg items (s, 0) = Inr (s', length (filter (matched h s ?rg) items))"
    "sheetName s' = sheetName s"
    "\<forall>i j. cellAt s' i j =
                 (case lastWrite h s ?rg items i of
                    None \<Rightarrow> cellAt s i j
                  | Some e \<Rightarrow> if 3 \<le> j \<and> j \<le> 9
                              then cellOfValue (rowValuesOf e ! (j - 3))
                              else cellAt s i j)"
    by auto
  show ?thesis
    using s'(2,3) by (simp add: updateSheet_run[OF assms] s'(1) andThen_def)
qed


section \<open>The claims on the weekly sheet\<close>

lemma example_parse: "parseMmDdYyyy exampleHost ''01/05/2026'' = Some 1767571200000"
  by (simp add: parseMmDdYyyy_def exampleHost_def plainNumber_def nthNumber_def utcNewDate_def
      toInteger_def daysFromCivil_def)

lemma example_parse_february: "parseMmDdYyyy exampleHost ''02/02/2026'' = Some 1769990400000"
  by (simp add: parseMmDdYyyy_def exampleHost_def plainNumber_def nthNumber_def utcNewDate_def
      toInteger_def daysFromCivil_def)

lemma example_match:
  "findFirstDateMatch exampleHost exampleSheet (Some 1767571200000) = Some \<lparr>row = 1, column = 2\<rparr>"
  by code_simp

lemma example_no_match:
  "findFirstDateMatch exampleHost exampleSheet (Some 1769990400000) = None"
  by code_simp

lemma example_fields:
  "week_start_date exampleData = Some ''01/05/2026''"
  "data exampleData = Some
        [\<lparr>habit = ''Flossing'', vals = Some [Some (Fin 1), Some (Fin 0), None]\<rparr>,
         \<lparr>habit = ''Yoga'', vals = Some [Some (Fin 1)]\<rparr>,
         \<lparr>habit = ''Weight'', vals = None\<rparr>]"
  by (simp_all add: exampleData_def)

text \<open>
  C3. For every target date and every state of the table, \<open>findFirstDateMatch\<close>
  returns the row and the column, counted from 1, of the first cell in reading order
  that holds the target date at day granularity: the cell holds it, and no cell that
  holds it is read before. It returns \<open>None\<close> exactly when no cell holds it.
\<close>

theorem findFirstDateMatch_first_in_reading_order:
  "(case findFirstDateMatch h s targetDate of
      None \<Rightarrow> \<forall>r c. \<not> holdsDate h s targetDate r c
    | Some m \<Rightarrow>
        1 \<le> row m \<and> 1 \<le> column m \<and> holdsDate h s targetDate (row m) (column m)
        \<and> (\<forall>r c. holdsDate h s targetDate r c \<longrightarrow> \<not> readsBefore (r, c) (row m, column m)))"
proof (cases "findFirstDateMatch h s targetDate")
  case None
  then show ?thesis using findFirstDateMatch_None[of h s targetDate] by simp
next
  case (Some m)
  then show ?thesis using findFirstDateMatch_Some[OF Some] by simp
qed

theorem findFirstDateMatch_first_in_reading_order_witness:
  "findFirstDateMatch exampleHost exampleSheet (Some 1767571200000) = Some \<lparr>row = 1, column = 2\<rparr>
   \<and> holdsDate exampleHost exampleSheet (Some 1767571200000) 1 2
   \<and> holdsDate exampleHost exampleSheet (Some 1767571200000) 2 2
   \<and> \<not> readsBefore (2, 2) (1, 2)
   \<and> findFirstDateMatch exampleHost exampleSheet (Some 1769990400000) = None
   \<and> \<not> holdsDate exampleHost exampleSheet (Some 1769990400000) 1 2"
proof -
  have a: "holdsDate exampleHost exampleSheet (Some 1767571200000) 2 2"
    by code_simp
  from findFirstDateMatch_first_in_reading_order[of exampleHost exampleSheet "Some 1767571200000"]
  have "holdsDate exampleHost exampleSheet (Some 1767571200000) 1 2"
    and "\<not> readsBefore (2, 2) (1, 2)"
    using a by (simp_all add: example_match)
  moreover
  from findFirstDateMatch_first_in_reading_order[of exampleHost exampleSheet "Some 1769990400000"]
  have "\<not> holdsDate exampleHost exampleSheet (Some 1769990400000) 1 2"
    by (simp add: example_no_match)
  ultimately show ?thesis using a by (simp add: example_match example_no_match)
qed

text \<open>
  What holds for a week-start date that parses to a valid date: when no cell of the
  table holds it at day granularity, \<open>updateSheet\<close> does not throw; it returns the string
  that names the week and the sheet, and the sheet it leaves is the sheet it was given.
\<close>

lemma updateSheet_valid_week_not_found:
  assumes "week_start_date dat = Some w" and "w \<noteq> []"
    and "parseMmDdYyyy h w = Some ms"
    and "\<forall>r c. \<not> holdsDate h s (parseMmDdYyyy h w) r c"
  shows "updateSheet h stringify (Some s) (Some dat)
           = Inr (''Error: Could not find week starting '' @ w @ '' in sheet '' @ [quote]
                    @ sheetName s @ [quote] @ ''.'', s)"
proof -
  have "findFirstDateMatch h s (parseMmDdYyyy h w) = None"
    using assms(4) by (simp add: findFirstDateMatch_None)
  then show ?thesis by (simp add: updateSheet_def assms(1,2,3) Let_def)
qed

lemma updateSheet_valid_week_not_found_example:
  "updateSheet exampleHost noStringify (Some exampleSheet)
     (Some (exampleData\<lparr>week_start_date := Some ''02/02/2026''\<rparr>))
     = Inr (''Error: Could not find week starting 02/02/2026 in sheet '' @ [quote]
              @ ''Weekly View'' @ [quote] @ ''.'', exampleSheet)"
proof -
  have n: "\<forall>r c. \<not> holdsDate exampleHost exampleSheet (parseMmDdYyyy exampleHost ''02/02/2026'') r c"
    using example_no_match by (simp add: findFirstDateMatch_None example_parse_february)
  have w: "week_start_date (exampleData\<lparr>week_start_date := Some ''02/02/2026''\<rparr>)
             = Some ''02/02/2026''" by simp
  have e: "''02/02/2026'' \<noteq> []" by simp
  have "sheetName exampleSheet = ''Weekly View''" by (simp add: exampleSheet_def)
  then show ?thesis
    using updateSheet_valid_week_not_found[OF w e example_parse_february n, of noStringify]
    by simp
qed

text \<open>
  A week-start date that does not parse to a valid date never reaches the test: the
  line that logs the target date throws.
\<close>

lemma updateSheet_invalid_date:
  assumes "week_start_date dat = Some w" and "w \<noteq> []" and "parseMmDdYyyy h w = None"
  shows "(\<forall>r c. \<not> holdsDate h s (parseMmDdYyyy h w) r c)
         \<and> updateSheet h stringify (Some s) (Some dat) = Inl RangeError"
proof -
  have "findFirstDateMatch h s (parseMmDdYyyy h w) = None"
    by (simp add: assms(3) invalid_date_no_match)
  then have "\<forall>r c. \<not> holdsDate h s (parseMmDdYyyy h w) r c"
    by (simp add: findFirstDateMatch_None)
  moreover have "updateSheet h stringify (Some s) (Some dat) = Inl RangeError"
    by (simp add: updateSheet_def assms Let_def)
  ultimately show ?thesis by blast
qed

text \<open>
  C2. The claim fails for a week-start date that does not parse to a valid date. For
  the week \<^verbatim>\<open>12/28\<close> (a month and a day, no year) the parsed date is invalid, so no cell
  of the table holds it; \<open>findFirstDateMatch\<close> returns \<^verbatim>\<open>null\<close>, but \<open>updateSheet\<close> does not
  return the string that names the week and the sheet: it throws the \<^verbatim>\<open>RangeError\<close> of
  the line that logs the target date. The table is left as it was.
\<close>

theorem updateSheet_unparseable_week_throws:
  "parseMmDdYyyy exampleHost ''12/28'' = None
   \<and> (\<forall>r c. \<not> holdsDate exampleHost exampleSheet (parseMmDdYyyy exampleHost ''12/28'') r c)
   \<and> findFirstDateMatch exampleHost exampleSheet (parseMmDdYyyy exampleHost ''12/28'') = None
   \<and> updateSheet exampleHost noStringify (Some exampleSheet)
         (Some (exampleData\<lparr>week_start_date := Some ''12/28''\<rparr>)) = Inl RangeError
   \<and> updateSheet exampleHost noStringify (Some exampleSheet)
         (Some (exampleData\<lparr>week_start_date := Some ''12/28''\<rparr>))
       \<noteq> Inr (''Error: Could not find week starting 12/28 in sheet '' @ [quote]
                @ ''Weekly View'' @ [quote] @ ''.'', exampleSheet)"
proof -
  have p: "parseMmDdYyyy exampleHost ''12/28'' = None"
    by (simp add: parseMmDdYyyy_def exampleHost_def plainNumber_def nthNumber_def utcNewDate_def)
  have w: "week_start_date (exampleData\<lparr>week_start_date := Some ''12/28''\<rparr>) = Some ''12/28''"
    by simp
  have e: "''12/28'' \<noteq> []" by simp
  have f: "findFirstDateMatch exampleHost exampleSheet (parseMmDdYyyy exampleHost ''12/28'') = None"
    by (simp add: p invalid_date_no_match)
  from updateSheet_invalid_date[OF w e p, of exampleSheet noStringify] p f
  show ?thesis by simp
qed


lemma findNext_window_Some:
  "findNext h s0 (searchWindow s R) name = Some (r, c) \<longleftrightarrow>
     c = 1 \<and> R \<le> r \<and> r < R + (getLastRow s + 1 - R)
     \<and> finderMatches h name (cellAt s0 r 1)
     \<and> (\<forall>i. R \<le> i \<and> i < r \<longrightarrow> \<not> finderMatches h name (cellAt s0 i 1))"
  using findNext_label_Some[where rg = "searchWindow s R" and h = h and s = s0 and name = name
      and r = r and c = c]
  by (simp add: window_label)

lemma findNext_window_None:
  "findNext h s0 (searchWindow s R) name = None \<longleftrightarrow>
     (\<forall>i. R \<le> i \<and> i < R + (getLastRow s + 1 - R) \<longrightarrow> \<not> finderMatches h name (cellAt s0 i 1))"
  using findNext_label_None[where rg = "searchWindow s R" and h = h and s = s0 and name = name]
  by (simp add: window_label)

lemma habitRow_Some:
  "habitRow h s R name = Some r \<longleftrightarrow> findNext h s (searchWindow s R) name = Some (r, 1)"
proof
  assume "habitRow h s R name = Some r"
  then obtain c where c: "findNext h s (searchWindow s R) name = Some (r, c)"
    by (auto simp: habitRow_def)
  then have "c = 1"
    by (simp add: findNext_window_Some)
  with c show "findNext h s (searchWindow s R) name = Some (r, 1)" by simp
next
  assume "findNext h s (searchWindow s R) name = Some (r, 1)"
  then show "habitRow h s R name = Some r" by (simp add: habitRow_def)
qed

lemma habitRow_matched:
  "(\<lambda>e. habitRow h s R (habit e) \<noteq> None) = matched h s (searchWindow s R)"
  by (rule ext) (simp add: habitRow_def matched_def)

lemma forEach_append:
  "forEach h rg (xs @ ys) st = andThen (forEach h rg xs st) (forEach h rg ys)"
  by (induction xs arbitrary: st) (auto simp: andThen_def split: sum.splits)

lemma lastWrite_Some:
  assumes "lastWrite h s rg items r = Some e"
  shows "e \<in> set items \<and> findNext h s rg (habit e) = Some (r, 1)"
proof -
  let ?ms = "filter (\<lambda>e. findNext h s rg (habit e) = Some (r, 1)) items"
  from assms have ne: "?ms \<noteq> []" and e: "e = last ?ms"
    by (auto simp: lastWrite_def split: list.splits)
  from ne have "last ?ms \<in> set ?ms" by (rule last_in_set)
  with e show ?thesis by simp
qed

lemma lastWrite_last:
  assumes "k < length items" "findNext h s rg (habit (items ! k)) = Some (r, 1)"
    and "\<forall>k'. k < k' \<and> k' < length items \<longrightarrow> findNext h s rg (habit (items ! k')) \<noteq> Some (r, 1)"
  shows "lastWrite h s rg items r = Some (items ! k)"
proof -
  let ?P = "\<lambda>e. findNext h s rg (habit e) = Some (r, 1)"
  have split: "items = take k items @ items ! k # drop (Suc k) items"
    using assms(1) by (rule id_take_nth_drop)
  have "\<not> ?P e" if "e \<in> set (drop (Suc k) items)" for e
  proof -
    from that obtain i where i: "i < length (drop (Suc k) items)" "e = drop (Suc k) items ! i"
      by (auto simp: in_set_conv_nth)
    then have "e = items ! (Suc k + i)" "Suc k + i < length items" by auto
    then show ?thesis using assms(3) by auto
  qed
  then have "filter ?P (drop (Suc k) items) = []" by (simp add: filter_empty_conv)
  then have "filter ?P items = filter ?P (take k items) @ [items ! k]"
    using assms(2) by (subst split) simp
  then have "filter ?P items \<noteq> [] \<and> last (filter ?P items) = items ! k" by simp
  then show ?thesis unfolding lastWrite_def by (cases "filter ?P items") auto
qed

text \<open>
  C1. In a run of \<open>updateSheet\<close> that found the week, take any entry (the one at index
  \<open>k\<close>) whose habit name the lookup finds at row \<open>r\<close> of the window. The loop reaches it
  (the entries before it do not fail), and its step writes seven values, no more: the
  cells of columns 3 to 9 of row \<open>r\<close> become the entry's values, the first seven of them
  if there are more, followed by \<^verbatim>\<open>null\<close> up to seven if there are fewer; no other cell
  changes in the step.
\<close>

theorem updateSheet_writes_seven_values:
  assumes "week_start_date dat = Some w" and "w \<noteq> []"
    and "findFirstDateMatch h s (parseMmDdYyyy h w) = Some m"
    and "data dat = Some items"
    and "k < length items"
    and "habitRow h s (row m) (habit (items ! k)) = Some r"
  shows "\<exists>sk n s'.
           updateSheet h stringify (Some s) (Some dat)
             = andThen (forEach h (searchWindow s (row m)) (drop (Suc k) items) (s', n + 1))
                 (\<lambda>st. Inr (successText (snd st) w, fst st))
         \<and> forEach h (searchWindow s (row m)) (take k items) (s, 0) = Inr (sk, n)
         \<and> updateEntry h (searchWindow s (row m)) (items ! k) (sk, n) = Inr (s', n + 1)
         \<and> (\<forall>j<7. cellAt s' r (3 + j) = cellOfValue (rowValuesOf (items ! k) ! j))
         \<and> (\<forall>i j. \<not> (i = r \<and> 3 \<le> j \<and> j \<le> 9) \<longrightarrow> cellAt s' i j = cellAt sk i j)
         \<and> length (rowValuesOf (items ! k)) = 7
         \<and> rowValuesOf (items ! k)
             = take 7 (case vals (items ! k) of None \<Rightarrow> [] | Some vs \<Rightarrow> vs)
                 @ replicate (7 - length (case vals (items ! k) of None \<Rightarrow> [] | Some vs \<Rightarrow> vs))
                     None"
proof -
  let ?rg = "searchWindow s (row m)"
  have r1: "1 \<le> rangeRow ?rg" using match_within[OF assms(3)] by (simp add: window_label)
  have lab: "\<forall>i. cellAt s i 1 = cellAt s i 1" by simp
  from forEach_spec[OF window_label(1,2) r1 lab, of h "take k items" 0]
  obtain sk where sk:
    "forEach h ?rg (take k items) (s, 0)
       = Inr (sk, 0 + length (filter (matched h s ?rg) (take k items)))"
    "\<forall>i j. cellAt sk i j =
       (case lastWrite h s ?rg (take k items) i of
          None \<Rightarrow> cellAt s i j
        | Some e \<Rightarrow> if 3 \<le> j \<and> j \<le> 9 then cellOfValue (rowValuesOf e ! (j - 3))
                    else cellAt s i j)"
    by blast
  define n where "n = length (filter (matched h s ?rg) (take k items))"
  have skn: "forEach h ?rg (take k items) (s, 0) = Inr (sk, n)" using sk(1) by (simp add: n_def)
  have labk: "\<forall>i. cellAt sk i 1 = cellAt s i 1"
    using sk(2) by (simp split: option.splits)
  have f: "findNext h s ?rg (habit (items ! k)) = Some (r, 1)"
    using assms(6) by (simp add: habitRow_Some)
  then have fk: "findNext h (fst (sk, n)) ?rg (habit (items ! k)) = Some (r, 1)"
    using findNext_label_cong[OF window_label(1,2) labk] by simp
  have rr: "1 \<le> r"
    using f match_within[OF assms(3)] by (simp add: findNext_window_Some)
  from updateEntry_Some[OF fk rr]
  obtain s' where s': "updateEntry h ?rg (items ! k) (sk, n) = Inr (s', n + 1)"
    "\<forall>i j. cellAt s' i j =
       (if i = r \<and> 3 \<le> j \<and> j \<le> 9 then cellOfValue (rowValuesOf (items ! k) ! (j - 3))
        else cellAt sk i j)"
    by auto
  have split: "items = take k items @ items ! k # drop (Suc k) items"
    using assms(5) by (rule id_take_nth_drop)
  have "forEach h ?rg items (s, 0) = forEach h ?rg (drop (Suc k) items) (s', n + 1)"
    by (subst split) (simp add: forEach_append skn s'(1) andThen_def)
  then have run: "updateSheet h stringify (Some s) (Some dat)
             = andThen (forEach h ?rg (drop (Suc k) items) (s', n + 1))
                 (\<lambda>st. Inr (successText (snd st) w, fst st))"
    by (simp add: updateSheet_run[OF assms(1-4)])
  have cells: "\<forall>j<7. cellAt s' r (3 + j) = cellOfValue (rowValuesOf (items ! k) ! j)"
    using s'(2) by simp
  have frame: "\<forall>i j. \<not> (i = r \<and> 3 \<le> j \<and> j \<le> 9) \<longrightarrow> cellAt s' i j = cellAt sk i j"
    using s'(2) by simp
  from run skn s'(1) cells frame length_rowValuesOf[of "items ! k"] rowValuesOf_eq[of "items ! k"]
  show ?thesis by blast
qed


lemma example_anchor:
  "findFirstDateMatch exampleHost exampleSheet (parseMmDdYyyy exampleHost ''01/05/2026'')
     = Some \<lparr>row = 1, column = 2\<rparr>"
  by (simp add: example_parse example_match)

lemma example_rows:
  "habitRow exampleHost exampleSheet 1 ''Flossing'' = Some 5"
  "habitRow exampleHost exampleSheet 1 ''Yoga'' = None"
  "habitRow exampleHost exampleSheet 1 ''Weight'' = Some 2"
  "habitRow exampleHost exampleSheet (Suc 0) ''Flossing'' = Some 5"
  "habitRow exampleHost exampleSheet (Suc 0) ''Yoga'' = None"
  "habitRow exampleHost exampleSheet (Suc 0) ''Weight'' = Some 2"
  by code_simp+

lemma example_cells:
  "cellAt exampleSheet 5 1 = CText ''Flossing''"
  "cellAt exampleSheet 5 2 = Blank"
  "cellAt exampleSheet 5 10 = Blank"
  "cellAt exampleSheet 3 3 = CNumber (Fin 9)"
  "cellAt exampleSheet 3 1 = CText ''Run (miles)''"
  "cellAt exampleSheet 4 1 = CText ''Run''"
  "cellAt exampleSheet 5 (Suc 0) = CText ''Flossing''"
  by code_simp+

lemma example_window:
  "rowValuesOf \<lparr>habit = ''Flossing'', vals = Some [Some (Fin 1), Some (Fin 0), None]\<rparr>
     = [Some (Fin 1), Some (Fin 0), None, None, None, None, None]"
  by (simp add: rowValuesOf_eq numeral_eq_Suc)

theorem updateSheet_writes_seven_values_witness:
  "\<exists>s'. updateEntry exampleHost (searchWindow exampleSheet 1)
            \<lparr>habit = ''Flossing'', vals = Some [Some (Fin 1), Some (Fin 0), None]\<rparr>
            (exampleSheet, 0) = Inr (s', 1)
        \<and> map (cellAt s' 5) [3, 4, 5, 6, 7, 8, 9]
            = [CNumber (Fin 1), CNumber (Fin 0), Blank, Blank, Blank, Blank, Blank]
        \<and> cellAt s' 5 1 = CText ''Flossing'' \<and> cellAt s' 5 2 = Blank \<and> cellAt s' 5 10 = Blank
        \<and> cellAt s' 3 3 = CNumber (Fin 9)"
proof -
  let ?items = "[\<lparr>habit = ''Flossing'', vals = Some [Some (Fin 1), Some (Fin 0), None]\<rparr>,
         \<lparr>habit = ''Yoga'', vals = Some [Some (Fin 1)]\<rparr>,
         \<lparr>habit = ''Weight'', vals = None\<rparr>]"
  have e: "''01/05/2026'' \<noteq> []" by simp
  have k: "0 < length ?items" by simp
  have r: "habitRow exampleHost exampleSheet (row \<lparr>row = 1, column = 2\<rparr>) (habit (?items ! 0)) = Some 5"
    by (simp add: example_rows)
  from updateSheet_writes_seven_values[OF example_fields(1) e example_anchor example_fields(2) k r,
      of noStringify]
  obtain sk n s' where w:
    "forEach exampleHost (searchWindow exampleSheet 1) (take 0 ?items) (exampleSheet, 0) = Inr (sk, n)"
    "updateEntry exampleHost (searchWindow exampleSheet 1) (?items ! 0) (sk, n) = Inr (s', n + 1)"
    "\<forall>j<7. cellAt s' 5 (3 + j) = cellOfValue (rowValuesOf (?items ! 0) ! j)"
    "\<forall>i j. \<not> (i = 5 \<and> 3 \<le> j \<and> j \<le> 9) \<longrightarrow> cellAt s' i j = cellAt sk i j"
    "rowValuesOf (?items ! 0)
       = take 7 (case vals (?items ! 0) of None \<Rightarrow> [] | Some vs \<Rightarrow> vs)
           @ replicate (7 - length (case vals (?items ! 0) of None \<Rightarrow> [] | Some vs \<Rightarrow> vs)) None"
    by auto
  from w(1) have sk: "sk = exampleSheet" "n = 0" by simp_all
  have c: "cellAt s' 5 (3 + j) = cellOfValue ([Some (Fin 1), Some (Fin 0), None, None, None, None, None] ! j)"
    if "j < 7" for j
    using w(3) that by (simp add: example_window)
  have "cellAt s' 5 3 = CNumber (Fin 1)" using c[of 0] by (simp add: cellOfValue_def)
  moreover have "cellAt s' 5 4 = CNumber (Fin 0)" using c[of 1] by (simp add: cellOfValue_def)
  moreover have "cellAt s' 5 5 = Blank" using c[of 2] by (simp add: cellOfValue_def)
  moreover have "cellAt s' 5 6 = Blank" using c[of 3] by (simp add: cellOfValue_def)
  moreover have "cellAt s' 5 7 = Blank" using c[of 4] by (simp add: cellOfValue_def)
  moreover have "cellAt s' 5 8 = Blank" using c[of 5] by (simp add: cellOfValue_def)
  moreover have "cellAt s' 5 9 = Blank" using c[of 6] by (simp add: cellOfValue_def)
  moreover have "cellAt s' 5 1 = CText ''Flossing''" "cellAt s' 5 2 = Blank"
    "cellAt s' 5 10 = Blank" "cellAt s' 3 3 = CNumber (Fin 9)"
    using w(4)[rule_format, of 5 1] w(4)[rule_format, of 5 2] w(4)[rule_format, of 5 10]
      w(4)[rule_format, of 3 3] sk
    by (simp_all add: example_cells)
  ultimately show ?thesis using w(2) sk by simp
qed

text \<open>
  C9. In a run of \<open>updateSheet\<close> that found the week, the entries are handled one by
  one: the run does not fail; the string it returns gives the number of entries the
  lookup found and the week; the entries the lookup does not find change nothing (the
  run without them returns the same string and the same sheet); and the row of an
  entry the lookup found holds, at the end, the seven values of that entry, unless a
  later entry was sent to the same row.
\<close>

theorem updateSheet_skips_unmatched:
  assumes "week_start_date dat = Some w" and "w \<noteq> []"
    and "findFirstDateMatch h s (parseMmDdYyyy h w) = Some m"
    and "data dat = Some items"
  shows "\<exists>s'. updateSheet h stringify (Some s) (Some dat)
                 = Inr (''Success! Updated ''
                          @ showNat (length (filter (\<lambda>e. habitRow h s (row m) (habit e) \<noteq> None) items))
                          @ '' habits for week of '' @ w, s')
            \<and> updateSheet h stringify (Some s)
                 (Some (dat\<lparr>data := Some (filter (\<lambda>e. habitRow h s (row m) (habit e) \<noteq> None) items)\<rparr>))
                 = updateSheet h stringify (Some s) (Some dat)
            \<and> (\<forall>k r. k < length items \<and> habitRow h s (row m) (habit (items ! k)) = Some r
                      \<and> (\<forall>k'. k < k' \<and> k' < length items
                                \<longrightarrow> habitRow h s (row m) (habit (items ! k')) \<noteq> Some r)
                   \<longrightarrow> (\<forall>j<7. cellAt s' r (3 + j) = cellOfValue (rowValuesOf (items ! k) ! j)))"
proof -
  let ?rg = "searchWindow s (row m)"
  let ?dat' = "dat\<lparr>data := Some (filter (matched h s ?rg) items)\<rparr>"
  have r1: "1 \<le> rangeRow ?rg" using match_within[OF assms(3)] by (simp add: window_label)
  obtain s' where s':
    "updateSheet h stringify (Some s) (Some dat)
       = Inr (successText (length (filter (matched h s ?rg) items)) w, s')"
    "\<forall>i j. cellAt s' i j =
       (case lastWrite h s ?rg items i of
          None \<Rightarrow> cellAt s i j
        | Some e \<Rightarrow> if 3 \<le> j \<and> j \<le> 9 then cellOfValue (rowValuesOf e ! (j - 3))
                    else cellAt s i j)"
    using updateSheet_result[OF assms, of stringify] by blast
  have w': "week_start_date ?dat' = Some w" "data ?dat' = Some (filter (matched h s ?rg) items)"
    using assms(1) by simp_all
  have lab: "\<forall>i. cellAt s i 1 = cellAt s i 1" by simp
  have same: "updateSheet h stringify (Some s) (Some ?dat')
                = updateSheet h stringify (Some s) (Some dat)"
    by (simp add: updateSheet_run[OF assms] updateSheet_run[OF w'(1) assms(2,3) w'(2)]
        forEach_filter[OF window_label(1,2) r1 lab])
  have last: "\<forall>j<7. cellAt s' r (3 + j) = cellOfValue (rowValuesOf (items ! k) ! j)"
    if "k < length items" "habitRow h s (row m) (habit (items ! k)) = Some r"
      "\<forall>k'. k < k' \<and> k' < length items \<longrightarrow> habitRow h s (row m) (habit (items ! k')) \<noteq> Some r"
    for k r
  proof -
    have "lastWrite h s ?rg items r = Some (items ! k)"
      using that by (intro lastWrite_last) (simp_all add: habitRow_Some)
    then show ?thesis using s'(2) by simp
  qed
  have a: "updateSheet h stringify (Some s) (Some dat)
                 = Inr (''Success! Updated ''
                          @ showNat (length (filter (\<lambda>e. habitRow h s (row m) (habit e) \<noteq> None) items))
                          @ '' habits for week of '' @ w, s')"
    unfolding habitRow_matched using s'(1) by (simp add: successText_def)
  have b: "updateSheet h stringify (Some s)
                 (Some (dat\<lparr>data := Some (filter (\<lambda>e. habitRow h s (row m) (habit e) \<noteq> None) items)\<rparr>))
                 = updateSheet h stringify (Some s) (Some dat)"
    unfolding habitRow_matched using same by simp
  from a b last show ?thesis by blast
qed

theorem updateSheet_skips_unmatched_witness:
  "\<exists>s'. updateSheet exampleHost noStringify (Some exampleSheet) (Some exampleData)
           = Inr (''Success! Updated 2 habits for week of 01/05/2026'', s')
       \<and> updateSheet exampleHost noStringify (Some exampleSheet)
           (Some (exampleData\<lparr>data := Some
              [\<lparr>habit = ''Flossing'', vals = Some [Some (Fin 1), Some (Fin 0), None]\<rparr>,
               \<lparr>habit = ''Weight'', vals = None\<rparr>]\<rparr>))
           = Inr (''Success! Updated 2 habits for week of 01/05/2026'', s')
       \<and> cellAt s' 5 3 = CNumber (Fin 1) \<and> cellAt s' 5 4 = CNumber (Fin 0)"
proof -
  let ?items = "[\<lparr>habit = ''Flossing'', vals = Some [Some (Fin 1), Some (Fin 0), None]\<rparr>,
         \<lparr>habit = ''Yoga'', vals = Some [Some (Fin 1)]\<rparr>,
         \<lparr>habit = ''Weight'', vals = None\<rparr>]"
  have e: "''01/05/2026'' \<noteq> []" by simp
  from updateSheet_skips_unmatched[OF example_fields(1) e example_anchor example_fields(2),
      of noStringify]
  obtain s' where w:
    "updateSheet exampleHost noStringify (Some exampleSheet) (Some exampleData)
       = Inr (''Success! Updated ''
                @ showNat (length (filter (\<lambda>e. habitRow exampleHost exampleSheet 1 (habit e) \<noteq> None) ?items))
                @ '' habits for week of '' @ ''01/05/2026'', s')"
    "updateSheet exampleHost noStringify (Some exampleSheet)
       (Some (exampleData\<lparr>data := Some (filter (\<lambda>e. habitRow exampleHost exampleSheet 1 (habit e) \<noteq> None) ?items)\<rparr>))
       = updateSheet exampleHost noStringify (Some exampleSheet) (Some exampleData)"
    "\<forall>k r. k < length ?items \<and> habitRow exampleHost exampleSheet 1 (habit (?items ! k)) = Some r
            \<and> (\<forall>k'. k < k' \<and> k' < length ?items
                     \<longrightarrow> habitRow exampleHost exampleSheet 1 (habit (?items ! k')) \<noteq> Some r)
        \<longrightarrow> (\<forall>j<7. cellAt s' r (3 + j) = cellOfValue (rowValuesOf (?items ! k) ! j))"
    by auto
  have n: "showNat (length (filter (\<lambda>e. habitRow exampleHost exampleSheet 1 (habit e) \<noteq> None) ?items))
             = ''2''"
    by code_simp
  have f: "filter (\<lambda>e. habitRow exampleHost exampleSheet 1 (habit e) \<noteq> None) ?items
             = [\<lparr>habit = ''Flossing'', vals = Some [Some (Fin 1), Some (Fin 0), None]\<rparr>,
                \<lparr>habit = ''Weight'', vals = None\<rparr>]"
    by code_simp
  have w1: "updateSheet exampleHost noStringify (Some exampleSheet) (Some exampleData)
              = Inr (''Success! Updated 2 habits for week of 01/05/2026'', s')"
    using w(1) unfolding n by simp
  have w2: "updateSheet exampleHost noStringify (Some exampleSheet)
           (Some (exampleData\<lparr>data := Some
              [\<lparr>habit = ''Flossing'', vals = Some [Some (Fin 1), Some (Fin 0), None]\<rparr>,
               \<lparr>habit = ''Weight'', vals = None\<rparr>]\<rparr>))
              = Inr (''Success! Updated 2 habits for week of 01/05/2026'', s')"
    using w(2) unfolding f w1 .
  have later: "\<forall>k'. 0 < k' \<and> k' < length ?items
                 \<longrightarrow> habitRow exampleHost exampleSheet 1 (habit (?items ! k')) \<noteq> Some 5"
  proof (intro allI impI)
    fix k' assume "0 < k' \<and> k' < length ?items"
    then have "k' = 1 \<or> k' = 2" by auto
    then show "habitRow exampleHost exampleSheet 1 (habit (?items ! k')) \<noteq> Some 5"
      by (auto simp: example_rows)
  qed
  have pre: "0 < length ?items \<and> habitRow exampleHost exampleSheet 1 (habit (?items ! 0)) = Some 5
            \<and> (\<forall>k'. 0 < k' \<and> k' < length ?items
                     \<longrightarrow> habitRow exampleHost exampleSheet 1 (habit (?items ! k')) \<noteq> Some 5)"
    using later by (simp add: example_rows)
  from w(3) pre
  have c: "\<forall>j<7. cellAt s' 5 (3 + j) = cellOfValue (rowValuesOf (?items ! 0) ! j)"
    by blast
  have "cellAt s' 5 3 = CNumber (Fin 1)" "cellAt s' 5 4 = CNumber (Fin 0)"
    using c[rule_format, of 0] c[rule_format, of 1]
    by (simp_all add: example_window cellOfValue_def)
  with w1 w2 show ?thesis by blast
qed


text \<open>
  C10. In a run of \<open>updateSheet\<close> that found the week at row \<open>row m\<close> and returned, the
  sheet keeps its name, and a cell that differs from what it was lies in columns 3 to
  9 of a row between the anchor row and the last row with content (both included) to
  which the lookup sent one of the entries. So the label column, every column outside
  3 to 9 and every row above the anchor are as they were.
\<close>

theorem updateSheet_frame:
  assumes "week_start_date dat = Some w" and "w \<noteq> []"
    and "findFirstDateMatch h s (parseMmDdYyyy h w) = Some m"
    and "data dat = Some items"
    and "updateSheet h stringify (Some s) (Some dat) = Inr (msg, s')"
  shows "sheetName s' = sheetName s
         \<and> (\<forall>i j. cellAt s' i j \<noteq> cellAt s i j \<longrightarrow>
               3 \<le> j \<and> j \<le> 9 \<and> row m \<le> i \<and> i \<le> getLastRow s
               \<and> (\<exists>e\<in>set items. habitRow h s (row m) (habit e) = Some i))"
proof -
  let ?rg = "searchWindow s (row m)"
  obtain s'' where s'':
    "updateSheet h stringify (Some s) (Some dat)
       = Inr (successText (length (filter (matched h s ?rg) items)) w, s'')"
    "sheetName s'' = sheetName s"
    "\<forall>i j. cellAt s'' i j =
       (case lastWrite h s ?rg items i of
          None \<Rightarrow> cellAt s i j
        | Some e \<Rightarrow> if 3 \<le> j \<and> j \<le> 9 then cellOfValue (rowValuesOf e ! (j - 3))
                    else cellAt s i j)"
    using updateSheet_result[OF assms(1-4), of stringify] by blast
  from s''(1) assms(5) have eq: "s'' = s'" by simp
  have "3 \<le> j \<and> j \<le> 9 \<and> row m \<le> i \<and> i \<le> getLastRow s
          \<and> (\<exists>e\<in>set items. habitRow h s (row m) (habit e) = Some i)"
    if d: "cellAt s' i j \<noteq> cellAt s i j" for i j
  proof -
    from d s''(3) eq obtain e where e: "lastWrite h s ?rg items i = Some e" and j: "3 \<le> j \<and> j \<le> 9"
      by (cases "lastWrite h s ?rg items i") (auto split: if_splits)
    from lastWrite_Some[OF e] have m: "e \<in> set items" "findNext h s ?rg (habit e) = Some (i, 1)"
      by simp_all
    from m(2) have "row m \<le> i \<and> i < row m + (getLastRow s + 1 - row m)"
      by (simp add: findNext_window_Some)
    then have "row m \<le> i \<and> i \<le> getLastRow s" by auto
    moreover have "habitRow h s (row m) (habit e) = Some i" using m(2) by (simp add: habitRow_Some)
    ultimately show ?thesis using j m(1) by blast
  qed
  with s''(2) eq show ?thesis by blast
qed

lemma example_run:
  "\<exists>s'. updateSheet exampleHost noStringify (Some exampleSheet) (Some exampleData)
            = Inr (''Success! Updated 2 habits for week of 01/05/2026'', s')"
proof -
  have e: "''01/05/2026'' \<noteq> []" by simp
  have n: "successText (length (filter (matched exampleHost exampleSheet
                (searchWindow exampleSheet (row \<lparr>row = 1, column = 2\<rparr>)))
             [\<lparr>habit = ''Flossing'', vals = Some [Some (Fin 1), Some (Fin 0), None]\<rparr>,
              \<lparr>habit = ''Yoga'', vals = Some [Some (Fin 1)]\<rparr>,
              \<lparr>habit = ''Weight'', vals = None\<rparr>])) ''01/05/2026''
            = ''Success! Updated 2 habits for week of 01/05/2026''"
    by code_simp
  from updateSheet_result[OF example_fields(1) e example_anchor example_fields(2), of noStringify]
  show ?thesis unfolding n by blast
qed

theorem updateSheet_frame_witness:
  "\<exists>s'. updateSheet exampleHost noStringify (Some exampleSheet) (Some exampleData)
            = Inr (''Success! Updated 2 habits for week of 01/05/2026'', s')
        \<and> sheetName s' = ''Weekly View''
        \<and> cellAt s' 5 1 = CText ''Flossing''
        \<and> cellAt s' 3 3 = CNumber (Fin 9)
        \<and> cellAt s' 1 2 = CDate (Some 1767603600000)
        \<and> cellAt s' 5 10 = Blank"
proof -
  obtain s' where r: "updateSheet exampleHost noStringify (Some exampleSheet) (Some exampleData)
            = Inr (''Success! Updated 2 habits for week of 01/05/2026'', s')"
    using example_run by blast
  have e: "''01/05/2026'' \<noteq> []" by simp
  note fr = updateSheet_frame[OF example_fields(1) e example_anchor example_fields(2) r]
  have n: "sheetName s' = ''Weekly View''" using fr by (simp add: exampleSheet_def)
  have same: "cellAt s' i j = cellAt exampleSheet i j" if "\<not> (3 \<le> j \<and> j \<le> 9)" for i j
    using fr that by blast
  have "\<not> (\<exists>e\<in>set [\<lparr>habit = ''Flossing'', vals = Some [Some (Fin 1), Some (Fin 0), None]\<rparr>,
              \<lparr>habit = ''Yoga'', vals = Some [Some (Fin 1)]\<rparr>,
              \<lparr>habit = ''Weight'', vals = None\<rparr>].
            habitRow exampleHost exampleSheet (row \<lparr>row = 1, column = 2\<rparr>) (habit e) = Some 3)"
    by (simp add: example_rows)
  then have c33: "cellAt s' 3 3 = cellAt exampleSheet 3 3" using fr by blast
  have "cellAt s' 5 1 = cellAt exampleSheet 5 1" "cellAt s' 1 2 = cellAt exampleSheet 1 2"
    "cellAt s' 5 10 = cellAt exampleSheet 5 10"
    by (rule same, simp)+
  moreover have "cellAt exampleSheet 1 2 = CDate (Some 1767603600000)" by code_simp
  ultimately show ?thesis using r n c33 by (simp add: example_cells)
qed

text \<open>The criterion of the platform's finder, in words of the text of the cell.\<close>

lemma defaultFinder_occurs:
  "defaultFinder name v \<longleftrightarrow> (\<exists>label. v = CText label \<and> name \<noteq> [] \<and> occursIn name label)"
  by (cases v) (simp_all add: defaultFinder_def)

text \<open>
  C4 (as amended). In a run of \<open>updateSheet\<close> that found the week, the window of the
  lookup is the range that starts at the anchor row in column 1, one column wide, and
  ends at the last row with content, and the run is the loop over the entries on that
  window. When the loop reaches an entry, the label column is as it was at the start;
  the step looks the name of the entry up with the host's finder, no option set. When
  no row of the window has a label cell that meets the finder's criterion for the name,
  the step changes nothing. Otherwise the step writes the values of the entry into
  columns 3 to 9 of the first such row, from the top of the window, and into no other
  cell. With the criterion the platform documents for a finder with no option set, a
  label cell meets it when it is a text that the name occurs in, upper and lower case
  taken as equal: the name need not be the entire text of the cell.
\<close>

theorem updateSheet_habit_lookup:
  assumes "week_start_date dat = Some w" and "w \<noteq> []"
    and "findFirstDateMatch h s (parseMmDdYyyy h w) = Some m"
    and "data dat = Some items" and "k < length items"
  shows "\<exists>W sk n.
       getRange (row m) 1 (int (getLastRow s) - int (row m) + 1) 1 = Inr W
     \<and> rangePositions W = map (\<lambda>i. (i, 1)) [row m ..< Suc (getLastRow s)]
     \<and> forEach h W (take k items) (s, 0) = Inr (sk, n)
     \<and> updateSheet h stringify (Some s) (Some dat)
         = andThen (andThen (updateEntry h W (items ! k) (sk, n))
                      (forEach h W (drop (Suc k) items)))
             (\<lambda>st. Inr (successText (snd st) w, fst st))
     \<and> (\<forall>i. cellAt sk i 1 = cellAt s i 1)
     \<and> ((\<forall>i. row m \<le> i \<and> i \<le> getLastRow s
              \<longrightarrow> \<not> finderMatches h (habit (items ! k)) (cellAt s i 1))
          \<longrightarrow> updateEntry h W (items ! k) (sk, n) = Inr (sk, n))
     \<and> (\<forall>r. row m \<le> r \<and> r \<le> getLastRow s
             \<and> finderMatches h (habit (items ! k)) (cellAt s r 1)
             \<and> (\<forall>i. row m \<le> i \<and> i < r
                    \<longrightarrow> \<not> finderMatches h (habit (items ! k)) (cellAt s i 1))
          \<longrightarrow> (\<exists>s'. updateEntry h W (items ! k) (sk, n) = Inr (s', n + 1)
                  \<and> (\<forall>j<7. cellAt s' r (3 + j) = cellOfValue (rowValuesOf (items ! k) ! j))
                  \<and> (\<forall>i j. \<not> (i = r \<and> 3 \<le> j \<and> j \<le> 9) \<longrightarrow> cellAt s' i j = cellAt sk i j)))
     \<and> (finderMatches h = defaultFinder \<longrightarrow>
          (\<forall>i. finderMatches h (habit (items ! k)) (cellAt s i 1)
               \<longleftrightarrow> (\<exists>label. cellAt s i 1 = CText label \<and> habit (items ! k) \<noteq> []
                            \<and> occursIn (habit (items ! k)) label)))"
proof -
  let ?R = "row m"
  let ?W = "searchWindow s ?R"
  let ?item = "items ! k"
  let ?name = "habit ?item"
  have in_table: "1 \<le> ?R" "?R \<le> getLastRow s"
    using match_within[OF assms(3)] by simp_all
  have e: "?R + (getLastRow s + 1 - ?R) = Suc (getLastRow s)" using in_table by simp
  have a: "getRange ?R 1 (int (getLastRow s) - int ?R + 1) 1 = Inr ?W"
    using in_table by (rule getRange_window)
  have b: "rangePositions ?W = map (\<lambda>i. (i, 1)) [?R ..< Suc (getLastRow s)]"
    using rangePositions_label[OF window_label(1,2), of s ?R] e by (simp add: window_label)
  have r1: "1 \<le> rangeRow ?W" using in_table by (simp add: window_label)
  have "\<forall>i. cellAt s i 1 = cellAt s i 1" by simp
  from forEach_spec[OF window_label(1,2) r1, of s s h "take k items" 0, OF this]
  obtain sk where sk: "forEach h ?W (take k items) (s, 0)
                         = Inr (sk, 0 + length (filter (matched h s ?W) (take k items)))"
    and cells: "\<forall>i j. cellAt sk i j =
                 (case lastWrite h s ?W (take k items) i of
                    None \<Rightarrow> cellAt s i j
                  | Some e \<Rightarrow> if 3 \<le> j \<and> j \<le> 9
                              then cellOfValue (rowValuesOf e ! (j - 3))
                              else cellAt s i j)"
    by blast
  define n where "n = length (filter (matched h s ?W) (take k items))"
  have c: "forEach h ?W (take k items) (s, 0) = Inr (sk, n)" using sk by (simp add: n_def)
  have label: "\<forall>i. cellAt sk i 1 = cellAt s i 1"
  proof
    fix i
    show "cellAt sk i 1 = cellAt s i 1"
      using cells[rule_format, of i 1] by (simp split: option.splits)
  qed
  have split: "items = take k items @ ?item # drop (Suc k) items"
    using assms(5) by (simp add: id_take_nth_drop)
  have "forEach h ?W items (s, 0)
          = andThen (forEach h ?W (take k items) (s, 0)) (forEach h ?W (?item # drop (Suc k) items))"
    using forEach_append[of h ?W "take k items" "?item # drop (Suc k) items" "(s, 0)"] split
    by simp
  also have "\<dots> = forEach h ?W (?item # drop (Suc k) items) (sk, n)"
    by (simp add: c andThen_def)
  also have "\<dots> = andThen (updateEntry h ?W ?item (sk, n)) (forEach h ?W (drop (Suc k) items))"
    by simp
  finally have loop: "forEach h ?W items (s, 0)
      = andThen (updateEntry h ?W ?item (sk, n)) (forEach h ?W (drop (Suc k) items))" .
  have d: "updateSheet h stringify (Some s) (Some dat)
         = andThen (andThen (updateEntry h ?W ?item (sk, n))
                      (forEach h ?W (drop (Suc k) items)))
             (\<lambda>st. Inr (successText (snd st) w, fst st))"
    using updateSheet_run[OF assms(1-4), of stringify] loop by simp
  have same: "findNext h sk ?W ?name = findNext h s ?W ?name"
    using findNext_label_cong[OF window_label(1,2), where s' = sk and s = s and h = h] label by blast
  have f: "updateEntry h ?W ?item (sk, n) = Inr (sk, n)"
    if "\<forall>i. ?R \<le> i \<and> i \<le> getLastRow s \<longrightarrow> \<not> finderMatches h ?name (cellAt s i 1)"
  proof -
    from that have "\<forall>i. ?R \<le> i \<and> i < ?R + (getLastRow s + 1 - ?R)
                        \<longrightarrow> \<not> finderMatches h ?name (cellAt s i 1)"
      unfolding e by (simp add: less_Suc_eq_le)
    then have "findNext h s ?W ?name = None"
      using findNext_window_None[THEN iffD2] by blast
    then have "findNext h (fst (sk, n)) ?W ?name = None" using same by simp
    then show ?thesis by (rule updateEntry_None)
  qed
  have g: "\<exists>s'. updateEntry h ?W ?item (sk, n) = Inr (s', n + 1)
                  \<and> (\<forall>j<7. cellAt s' r (3 + j) = cellOfValue (rowValuesOf ?item ! j))
                  \<and> (\<forall>i j. \<not> (i = r \<and> 3 \<le> j \<and> j \<le> 9) \<longrightarrow> cellAt s' i j = cellAt sk i j)"
    if "?R \<le> r \<and> r \<le> getLastRow s \<and> finderMatches h ?name (cellAt s r 1)
        \<and> (\<forall>i. ?R \<le> i \<and> i < r \<longrightarrow> \<not> finderMatches h ?name (cellAt s i 1))" for r
  proof -
    from that have "(1::nat) = 1 \<and> ?R \<le> r \<and> r < ?R + (getLastRow s + 1 - ?R)
        \<and> finderMatches h ?name (cellAt s r 1)
        \<and> (\<forall>i. ?R \<le> i \<and> i < r \<longrightarrow> \<not> finderMatches h ?name (cellAt s i 1))"
      unfolding e by (simp add: less_Suc_eq_le)
    then have "findNext h s ?W ?name = Some (r, 1)"
      using findNext_window_Some[THEN iffD2] by blast
    then have fn: "findNext h (fst (sk, n)) ?W ?name = Some (r, 1)" using same by simp
    have r1: "1 \<le> r" using that in_table by simp
    from updateEntry_Some[OF fn r1]
    obtain s' where u: "updateEntry h ?W ?item (sk, n) = Inr (s', n + 1)"
      and w: "\<forall>i j. cellAt s' i j
                  = (if i = r \<and> 3 \<le> j \<and> j \<le> 9
                     then cellOfValue (rowValuesOf ?item ! (j - 3))
                     else cellAt sk i j)"
      by auto
    have "\<forall>j<7. cellAt s' r (3 + j) = cellOfValue (rowValuesOf ?item ! j)"
      using w by simp
    moreover have "\<forall>i j. \<not> (i = r \<and> 3 \<le> j \<and> j \<le> 9) \<longrightarrow> cellAt s' i j = cellAt sk i j"
      using w by simp
    ultimately show ?thesis using u by blast
  qed
  have crit: "finderMatches h = defaultFinder \<longrightarrow>
          (\<forall>i. finderMatches h ?name (cellAt s i 1)
               \<longleftrightarrow> (\<exists>label. cellAt s i 1 = CText label \<and> ?name \<noteq> []
                            \<and> occursIn ?name label))"
    by (simp add: defaultFinder_occurs)
  from a b c d label f g crit show ?thesis by blast
qed

theorem updateSheet_habit_lookup_witness:
  "(\<exists>W s'. getRange 1 1 (int (getLastRow exampleSheet) - int 1 + 1) 1 = Inr W
        \<and> updateEntry exampleHost W
             \<lparr>habit = ''Flossing'', vals = Some [Some (Fin 1), Some (Fin 0), None]\<rparr>
             (exampleSheet, 0) = Inr (s', 1)
        \<and> cellAt s' 5 3 = CNumber (Fin 1) \<and> cellAt s' 5 4 = CNumber (Fin 0)
        \<and> cellAt s' 5 9 = Blank \<and> cellAt s' 3 3 = CNumber (Fin 9))
   \<and> (\<exists>W sk n. forEach exampleHost W
                  [\<lparr>habit = ''Flossing'', vals = Some [Some (Fin 1), Some (Fin 0), None]\<rparr>]
                  (exampleSheet, 0) = Inr (sk, n)
        \<and> updateEntry exampleHost W \<lparr>habit = ''Yoga'', vals = Some [Some (Fin 1)]\<rparr> (sk, n)
            = Inr (sk, n))
   \<and> (\<exists>label. cellAt exampleSheet 5 1 = CText label \<and> occursIn ''Flossing'' label)"
proof -
  let ?flossing = "\<lparr>habit = ''Flossing'', vals = Some [Some (Fin 1), Some (Fin 0), None]\<rparr>"
  let ?yoga = "\<lparr>habit = ''Yoga'', vals = Some [Some (Fin 1)]\<rparr>"
  let ?items = "[?flossing, ?yoga, \<lparr>habit = ''Weight'', vals = None\<rparr>]"
  let ?m = "\<lparr>row = 1, column = 2\<rparr>"
  have e: "''01/05/2026'' \<noteq> []" by simp
  have five: "getLastRow exampleSheet = 5" by code_simp
  have host: "finderMatches exampleHost = defaultFinder" by (simp add: exampleHost_def)
  have fl: "findNext exampleHost exampleSheet (searchWindow exampleSheet 1) ''Flossing'' = Some (5, 1)"
    and yo: "findNext exampleHost exampleSheet (searchWindow exampleSheet 1) ''Yoga'' = None"
    by code_simp+
  have fl': "1 \<le> (5::nat) \<and> (5::nat) \<le> 5
             \<and> finderMatches exampleHost ''Flossing'' (cellAt exampleSheet 5 1)
             \<and> (\<forall>i. 1 \<le> i \<and> i < 5
                    \<longrightarrow> \<not> finderMatches exampleHost ''Flossing'' (cellAt exampleSheet i 1))"
    using findNext_window_Some[THEN iffD1, OF fl] by simp
  have yo': "\<forall>i. 1 \<le> i \<and> i \<le> 5 \<longrightarrow> \<not> finderMatches exampleHost ''Yoga'' (cellAt exampleSheet i 1)"
    using findNext_window_None[THEN iffD1, OF yo] unfolding five by (simp add: less_Suc_eq_le)
  have k0: "0 < length ?items" and k1: "1 < length ?items" by simp_all
  have first: "\<exists>W s'. getRange 1 1 (int (getLastRow exampleSheet) - int 1 + 1) 1 = Inr W
        \<and> updateEntry exampleHost W ?flossing (exampleSheet, 0) = Inr (s', 1)
        \<and> cellAt s' 5 3 = CNumber (Fin 1) \<and> cellAt s' 5 4 = CNumber (Fin 0)
        \<and> cellAt s' 5 9 = Blank \<and> cellAt s' 3 3 = CNumber (Fin 9)"
   and third: "\<exists>label. cellAt exampleSheet 5 1 = CText label \<and> occursIn ''Flossing'' label"
  proof -
    from updateSheet_habit_lookup[OF example_fields(1) e example_anchor example_fields(2) k0,
        of noStringify]
    obtain W sk n where
      w: "getRange (row ?m) 1 (int (getLastRow exampleSheet) - int (row ?m) + 1) 1 = Inr W"
      and fe: "forEach exampleHost W (take 0 ?items) (exampleSheet, 0) = Inr (sk, n)"
      and wr: "\<forall>r. row ?m \<le> r \<and> r \<le> getLastRow exampleSheet
             \<and> finderMatches exampleHost (habit (?items ! 0)) (cellAt exampleSheet r 1)
             \<and> (\<forall>i. row ?m \<le> i \<and> i < r
                    \<longrightarrow> \<not> finderMatches exampleHost (habit (?items ! 0)) (cellAt exampleSheet i 1))
          \<longrightarrow> (\<exists>s'. updateEntry exampleHost W (?items ! 0) (sk, n) = Inr (s', n + 1)
                  \<and> (\<forall>j<7. cellAt s' r (3 + j) = cellOfValue (rowValuesOf (?items ! 0) ! j))
                  \<and> (\<forall>i j. \<not> (i = r \<and> 3 \<le> j \<and> j \<le> 9) \<longrightarrow> cellAt s' i j = cellAt sk i j))"
      and cr: "finderMatches exampleHost = defaultFinder \<longrightarrow>
          (\<forall>i. finderMatches exampleHost (habit (?items ! 0)) (cellAt exampleSheet i 1)
               \<longleftrightarrow> (\<exists>label. cellAt exampleSheet i 1 = CText label \<and> habit (?items ! 0) \<noteq> []
                            \<and> occursIn (habit (?items ! 0)) label))"
      by blast
    from fe have sk: "sk = exampleSheet" "n = 0" by simp_all
    have w': "getRange 1 1 (int (getLastRow exampleSheet) - int 1 + 1) 1 = Inr W"
      using w by simp
    have "row ?m \<le> 5 \<and> 5 \<le> getLastRow exampleSheet
             \<and> finderMatches exampleHost (habit (?items ! 0)) (cellAt exampleSheet 5 1)
             \<and> (\<forall>i. row ?m \<le> i \<and> i < 5
                    \<longrightarrow> \<not> finderMatches exampleHost (habit (?items ! 0)) (cellAt exampleSheet i 1))"
      using fl' unfolding five by simp
    with wr obtain s' where
      u: "updateEntry exampleHost W (?items ! 0) (sk, n) = Inr (s', n + 1)"
      and v: "\<forall>j<7. cellAt s' 5 (3 + j) = cellOfValue (rowValuesOf (?items ! 0) ! j)"
      and o: "\<forall>i j. \<not> (i = 5 \<and> 3 \<le> j \<and> j \<le> 9) \<longrightarrow> cellAt s' i j = cellAt sk i j"
      by blast
    have u': "updateEntry exampleHost W ?flossing (exampleSheet, 0) = Inr (s', 1)"
      using u unfolding sk by simp
    have rv: "rowValuesOf (?items ! 0) = [Some (Fin 1), Some (Fin 0), None, None, None, None, None]"
      using example_window by simp
    have c: "cellAt s' 5 3 = CNumber (Fin 1)" "cellAt s' 5 4 = CNumber (Fin 0)"
      "cellAt s' 5 9 = Blank"
      using v[rule_format, of 0] v[rule_format, of 1] v[rule_format, of 6]
      unfolding rv by (simp_all add: cellOfValue_def)
    have "cellAt s' 3 3 = cellAt sk 3 3" using o by simp
    then have c33: "cellAt s' 3 3 = CNumber (Fin 9)" unfolding sk by (simp add: example_cells)
    from w' u' c c33
    show "\<exists>W s'. getRange 1 1 (int (getLastRow exampleSheet) - int 1 + 1) 1 = Inr W
        \<and> updateEntry exampleHost W ?flossing (exampleSheet, 0) = Inr (s', 1)
        \<and> cellAt s' 5 3 = CNumber (Fin 1) \<and> cellAt s' 5 4 = CNumber (Fin 0)
        \<and> cellAt s' 5 9 = Blank \<and> cellAt s' 3 3 = CNumber (Fin 9)"
      by blast
    from cr host have "finderMatches exampleHost (habit (?items ! 0)) (cellAt exampleSheet 5 1)
               \<longleftrightarrow> (\<exists>label. cellAt exampleSheet 5 1 = CText label \<and> habit (?items ! 0) \<noteq> []
                            \<and> occursIn (habit (?items ! 0)) label)"
      by blast
    with fl' show "\<exists>label. cellAt exampleSheet 5 1 = CText label \<and> occursIn ''Flossing'' label"
      by simp
  qed
  have second: "\<exists>W sk n. forEach exampleHost W [?flossing] (exampleSheet, 0) = Inr (sk, n)
        \<and> updateEntry exampleHost W ?yoga (sk, n) = Inr (sk, n)"
  proof -
    from updateSheet_habit_lookup[OF example_fields(1) e example_anchor example_fields(2) k1,
        of noStringify]
    obtain W sk n where
      fe: "forEach exampleHost W (take 1 ?items) (exampleSheet, 0) = Inr (sk, n)"
      and sp: "(\<forall>i. row ?m \<le> i \<and> i \<le> getLastRow exampleSheet
              \<longrightarrow> \<not> finderMatches exampleHost (habit (?items ! 1)) (cellAt exampleSheet i 1))
          \<longrightarrow> updateEntry exampleHost W (?items ! 1) (sk, n) = Inr (sk, n)"
      by blast
    have "\<forall>i. row ?m \<le> i \<and> i \<le> getLastRow exampleSheet
              \<longrightarrow> \<not> finderMatches exampleHost (habit (?items ! 1)) (cellAt exampleSheet i 1)"
      using yo' unfolding five by simp
    with sp have "updateEntry exampleHost W (?items ! 1) (sk, n) = Inr (sk, n)" by blast
    then have "updateEntry exampleHost W ?yoga (sk, n) = Inr (sk, n)" by simp
    moreover have "forEach exampleHost W [?flossing] (exampleSheet, 0) = Inr (sk, n)"
      using fe by simp
    ultimately show ?thesis by blast
  qed
  from first second third show ?thesis by blast
qed

text \<open>
  The lookup is not a lookup of the exact text. On the example sheet the label of row
  3 is \<^verbatim>\<open>Run (miles)\<close> and the label of row 4 is \<^verbatim>\<open>Run\<close>; with the finder the platform
  documents, the name \<^verbatim>\<open>Run\<close> is found at row 3, and the step of the loop, and the run of
  \<open>updateSheet\<close> on the one entry \<^verbatim>\<open>Run\<close>, write the values of the entry into row 3 and
  leave row 4 as it was.
\<close>

theorem habit_lookup_not_exact:
  "findNext exampleHost exampleSheet (searchWindow exampleSheet 1) ''Run'' = Some (3, 1)
   \<and> cellAt exampleSheet 3 1 = CText ''Run (miles)''
   \<and> cellAt exampleSheet 4 1 = CText ''Run''
   \<and> (case updateEntry exampleHost (searchWindow exampleSheet 1)
              \<lparr>habit = ''Run'', vals = Some [Some (Fin 5)]\<rparr> (exampleSheet, 0) of
         Inl e \<Rightarrow> False
       | Inr st \<Rightarrow> cellAt (fst st) 3 3 = CNumber (Fin 5) \<and> cellAt (fst st) 4 3 = Blank)
   \<and> (case updateSheet exampleHost noStringify (Some exampleSheet)
              (Some \<lparr>week_start_date = Some ''01/05/2026'',
                     data = Some [\<lparr>habit = ''Run'', vals = Some [Some (Fin 5)]\<rparr>]\<rparr>) of
         Inl e \<Rightarrow> False
       | Inr res \<Rightarrow> fst res = ''Success! Updated 1 habits for week of 01/05/2026''
                   \<and> cellAt (snd res) 3 3 = CNumber (Fin 5) \<and> cellAt (snd res) 4 3 = Blank)"
proof -
  let ?dat = "\<lparr>week_start_date = Some ''01/05/2026'',
               data = Some [\<lparr>habit = ''Run'', vals = Some [Some (Fin 5)]\<rparr>]\<rparr>"
  have step: "findNext exampleHost exampleSheet (searchWindow exampleSheet 1) ''Run'' = Some (3, 1)
   \<and> cellAt exampleSheet 3 1 = CText ''Run (miles)''
   \<and> cellAt exampleSheet 4 1 = CText ''Run''
   \<and> (case updateEntry exampleHost (searchWindow exampleSheet 1)
              \<lparr>habit = ''Run'', vals = Some [Some (Fin 5)]\<rparr> (exampleSheet, 0) of
         Inl e \<Rightarrow> False
       | Inr st \<Rightarrow> cellAt (fst st) 3 3 = CNumber (Fin 5) \<and> cellAt (fst st) 4 3 = Blank)"
    by code_simp
  have w: "week_start_date ?dat = Some ''01/05/2026''"
    and d: "data ?dat = Some [\<lparr>habit = ''Run'', vals = Some [Some (Fin 5)]\<rparr>]"
    and e: "''01/05/2026'' \<noteq> []"
    by simp_all
  have run: "updateSheet exampleHost noStringify (Some exampleSheet) (Some ?dat)
      = andThen (forEach exampleHost (searchWindow exampleSheet (row \<lparr>row = 1, column = 2\<rparr>))
                   [\<lparr>habit = ''Run'', vals = Some [Some (Fin 5)]\<rparr>] (exampleSheet, 0))
          (\<lambda>st. Inr (successText (snd st) ''01/05/2026'', fst st))"
    using w e example_anchor d by (rule updateSheet_run)
  have "case andThen (forEach exampleHost (searchWindow exampleSheet (row \<lparr>row = 1, column = 2\<rparr>))
                   [\<lparr>habit = ''Run'', vals = Some [Some (Fin 5)]\<rparr>] (exampleSheet, 0))
          (\<lambda>st. Inr (successText (snd st) ''01/05/2026'', fst st)) of
         Inl e \<Rightarrow> False
       | Inr res \<Rightarrow> fst res = ''Success! Updated 1 habits for week of 01/05/2026''
                   \<and> cellAt (snd res) 3 3 = CNumber (Fin 5) \<and> cellAt (snd res) 4 3 = Blank"
    by code_simp
  then have "case updateSheet exampleHost noStringify (Some exampleSheet) (Some ?dat) of
         Inl e \<Rightarrow> False
       | Inr res \<Rightarrow> fst res = ''Success! Updated 1 habits for week of 01/05/2026''
                   \<and> cellAt (snd res) 3 3 = CNumber (Fin 5) \<and> cellAt (snd res) 4 3 = Blank"
    unfolding run .
  with step show ?thesis by blast
qed


section \<open>The claims on the response and on the image\<close>

text \<open>A JSON text, by its first and its last character, is free of fences.\<close>

lemma json_bounds_fenceFree:
  assumes "trim t \<noteq> []"
    and "hd (trim t) \<in> set ''{[-0123456789tfn'' \<or> hd (trim t) = quote"
    and "last (trim t) \<in> set ''}]0123456789el'' \<or> last (trim t) = quote"
  shows "fenceFree t"
proof -
  have h: "hd (trim t) \<noteq> backtick" using assms(2) by (auto simp: backtick_def quote_def)
  have l: "last (trim t) \<noteq> backtick" using assms(3) by (auto simp: backtick_def quote_def)
  have "\<not> prefix fence (trim t)"
  proof
    assume "prefix fence (trim t)"
    then have "hd (trim t) = backtick" by (auto simp: prefix_def fence_def)
    with h show False by simp
  qed
  moreover have "\<not> suffix fence (trim t)"
  proof
    assume "suffix fence (trim t)"
    then have "last (trim t) = backtick" by (auto simp: suffix_def fence_def)
    with l show False by simp
  qed
  ultimately show ?thesis by (simp add: fenceFree_def)
qed

text \<open>
  C5. For every text \<open>t\<close> that, once trimmed, neither begins nor ends with a fence (every
  JSON text is one), the cleaning of the text wrapped in a \<^verbatim>\<open>json\<close> fence, of the text
  wrapped in a plain fence and of the text alone give the same string, the trimmed
  text; so the three parse to the same result, whatever the parser.
\<close>

theorem fences_do_not_change_the_parse:
  assumes "fenceFree t"
  shows "cleanTextResponse (fenceJson @ newline # t @ newline # fence) = trim t
         \<and> cleanTextResponse (fence @ newline # t @ newline # fence) = trim t
         \<and> cleanTextResponse t = trim t
         \<and> (\<forall>g. parseTextResponse g (fenceJson @ newline # t @ newline # fence)
                   = parseTextResponse g t
                \<and> parseTextResponse g (fence @ newline # t @ newline # fence)
                   = parseTextResponse g t)"
  using clean_json_fenced[OF assms] clean_plain_fenced[OF assms] clean_raw[OF assms]
  by (simp add: parseTextResponse_def)

text \<open>
  The condition is needed: a text that begins with a fence of its own is cleaned
  differently alone and inside a \<^verbatim>\<open>json\<close> fence.
\<close>

lemma fence_in_text_differs:
  "cleanTextResponse (fenceJson @ ''{}'') = ''{}''
   \<and> cleanTextResponse (fenceJson @ newline # (fenceJson @ ''{}'') @ newline # fence) = ''json{}''"
  by code_simp

lemma example_text_free: "fenceFree ''{\"week_start_date\":\"01/05/2026\"}''"
  by code_simp

theorem fences_do_not_change_the_parse_witness:
  "cleanTextResponse (fenceJson @ newline # ''{\"week_start_date\":\"01/05/2026\"}'' @ newline # fence)
     = ''{\"week_start_date\":\"01/05/2026\"}''
   \<and> cleanTextResponse (fence @ newline # ''{\"week_start_date\":\"01/05/2026\"}'' @ newline # fence)
     = ''{\"week_start_date\":\"01/05/2026\"}''
   \<and> cleanTextResponse ''{\"week_start_date\":\"01/05/2026\"}''
     = ''{\"week_start_date\":\"01/05/2026\"}''
   \<and> (\<forall>g. parseTextResponse g
              (fenceJson @ newline # ''{\"week_start_date\":\"01/05/2026\"}'' @ newline # fence)
            = jsonParse g ''{\"week_start_date\":\"01/05/2026\"}'')"
proof -
  have t: "trim ''{\"week_start_date\":\"01/05/2026\"}'' = ''{\"week_start_date\":\"01/05/2026\"}''"
    by code_simp
  from fences_do_not_change_the_parse[OF example_text_free]
  show ?thesis unfolding t by (simp add: parseTextResponse_def)
qed

text \<open>
  The reads along the path fail with a \<^verbatim>\<open>TypeError\<close> only, and they end in a string
  exactly when the body has the path.
\<close>

lemma textResponseOf_errors: "textResponseOf json = Inl e \<Longrightarrow> e = TypeError"
  by (auto simp: textResponseOf_def andThen_def getProp_def getIndex0_def
      split: sum.splits if_splits)

lemma ownProp_object: "ownProp v k \<noteq> JUndefined \<Longrightarrow> \<exists>kvs. v = JObj kvs"
  by (cases v) auto

lemma textResponseOf_string:
  assumes "textResponseOf json = Inr (JStr s)"
  shows "hasTextPath json"
proof -
  from assms obtain candidates candidate content parts part where c:
    "getProp json ''candidates'' = Inr candidates"
    "getIndex0 candidates = Inr candidate"
    "getProp candidate ''content'' = Inr content"
    "getProp content ''parts'' = Inr parts"
    "getIndex0 parts = Inr part"
    "getProp part ''text'' = Inr (JStr s)"
    by (auto simp: textResponseOf_def andThen_def split: sum.splits)
  from c(6) have p6: "ownProp part ''text'' = JStr s"
    by (simp add: getProp_def split: if_splits)
  then obtain pkvs where part: "part = JObj pkvs" using ownProp_object[of part "''text''"] by auto
  from c(5) have p5: "index0 parts = part" "\<not> nullish parts"
    by (simp_all add: getIndex0_def split: if_splits)
  from c(4) have p4: "ownProp content ''parts'' = parts"
    by (simp add: getProp_def split: if_splits)
  have "parts \<noteq> JUndefined" using p5(2) by (simp add: nullish_def)
  then obtain ckvs where content: "content = JObj ckvs"
    using p4 ownProp_object[of content "''parts''"] by auto
  from c(3) have p3: "ownProp candidate ''content'' = content"
    by (simp add: getProp_def split: if_splits)
  then obtain dkvs where candidate: "candidate = JObj dkvs"
    using content ownProp_object[of candidate "''content''"] by auto
  from c(2) have p2: "index0 candidates = candidate" "\<not> nullish candidates"
    by (simp_all add: getIndex0_def split: if_splits)
  from c(1) have p1: "ownProp json ''candidates'' = candidates"
    by (simp add: getProp_def split: if_splits)
  have "candidates \<noteq> JUndefined" using p2(2) by (simp add: nullish_def)
  then obtain jkvs where json: "json = JObj jkvs"
    using p1 ownProp_object[of json "''candidates''"] by auto
  have a: "index0 (ownProp json ''candidates'') = JObj dkvs" using p1 p2(1) candidate by simp
  have b: "index0 (ownProp (ownProp (JObj dkvs) ''content'') ''parts'') = JObj pkvs"
    using p3 p4 p5(1) candidate part by simp
  have d: "ownProp (JObj pkvs) ''text'' = JStr s" using p6 part by simp
  show ?thesis
    unfolding hasTextPath_def json using a[unfolded json] b d by simp
qed

lemma hasTextPath_string:
  assumes "hasTextPath json"
  shows "\<exists>s. textResponseOf json = Inr (JStr s)"
proof -
  from assms obtain jkvs where json: "json = JObj jkvs"
    by (cases json) (auto simp: hasTextPath_def)
  from assms json obtain dkvs where a: "index0 (ownProp json ''candidates'') = JObj dkvs"
    by (auto simp: hasTextPath_def split: jsval.splits)
  from assms json a obtain pkvs where
    b: "index0 (ownProp (ownProp (JObj dkvs) ''content'') ''parts'') = JObj pkvs"
    by (auto simp: hasTextPath_def split: jsval.splits)
  from assms json a b obtain s where d: "ownProp (JObj pkvs) ''text'' = JStr s"
    by (auto simp: hasTextPath_def split: jsval.splits)
  have n1: "\<not> nullish (ownProp json ''candidates'')"
    using a by (auto simp: nullish_def)
  have n2: "\<not> nullish (ownProp (ownProp (JObj dkvs) ''content'') ''parts'')"
    using b by (auto simp: nullish_def)
  have n3: "\<not> nullish (ownProp (JObj dkvs) ''content'')"
    using n2 by (cases "ownProp (JObj dkvs) ''content''") (auto simp: nullish_def)
  have "textResponseOf json = Inr (JStr s)"
    unfolding textResponseOf_def andThen_def getProp_def getIndex0_def
    using json a b d n1 n2 n3 by (simp add: nullish_def)
  then show ?thesis by blast
qed

text \<open>
  C8. When the body of the response parses, has no error object (its \<^verbatim>\<open>error\<close> is
  absent or falsy) and lacks the path to the text, \<open>callGemini\<close> fails: it throws the
  \<^verbatim>\<open>TypeError\<close> of the failed read, which is neither the error of the service nor the
  error of an unparseable text.
\<close>

theorem callGemini_fails_without_text:
  assumes "jsonParse g body = Inr json"
    and "\<not> hasErrorObject json"
    and "\<not> hasTextPath json"
  shows "callGeminiResponse g body = Inl TypeError"
proof (cases "nullish json")
  case True
  then show ?thesis by (simp add: callGeminiResponse_def assms(1) andThen_def getProp_def)
next
  case False
  have e: "getProp json ''error'' = Inr (ownProp json ''error'')" "\<not> truthy (ownProp json ''error'')"
    using False assms(2) by (simp_all add: getProp_def hasErrorObject_def)
  show ?thesis
  proof (cases "textResponseOf json")
    case (Inl err)
    then have "err = TypeError" by (rule textResponseOf_errors)
    with Inl show ?thesis by (simp add: callGeminiResponse_def assms(1) andThen_def e)
  next
    case (Inr v)
    have "\<not> (\<exists>s. v = JStr s)" using Inr assms(3) textResponseOf_string by blast
    then have "(case v of JStr s \<Rightarrow> parseTextResponse g s | _ \<Rightarrow> Inl TypeError) = Inl TypeError"
      by (cases v) auto
    with Inr show ?thesis by (simp add: callGeminiResponse_def assms(1) andThen_def e)
  qed
qed

theorem callGemini_fails_without_text_witness:
  "jsonParse exampleEngine ''{\"candidates\":[]}'' = Inr (JObj [(''candidates'', JArr [])])
   \<and> \<not> hasErrorObject (JObj [(''candidates'', JArr [])])
   \<and> \<not> hasTextPath (JObj [(''candidates'', JArr [])])
   \<and> callGeminiResponse exampleEngine ''{\"candidates\":[]}'' = Inl TypeError"
proof -
  have a: "jsonParse exampleEngine ''{\"candidates\":[]}'' = Inr (JObj [(''candidates'', JArr [])])"
    by (simp add: exampleEngine_def)
  have b: "\<not> hasErrorObject (JObj [(''candidates'', JArr [])])"
    by (simp add: hasErrorObject_def)
  have c: "\<not> hasTextPath (JObj [(''candidates'', JArr [])])"
    by (simp add: hasTextPath_def)
  from callGemini_fails_without_text[OF a b c] a b c show ?thesis by blast
qed


lemma getType_string: "getType v = ''string'' \<longleftrightarrow> isString v"
  by (cases v) (simp_all add: getType_def slice8_def isString_def)

lemma jsOr_cases: "jsOr a b = a \<or> jsOr a b = b"
  by (simp add: jsOr_def)

lemma unwrapImage_not_string:
  assumes "\<not> wrapsString img"
  shows "\<not> isString (unwrapImage img)"
proof (cases img)
  case (JObj kvs)
  let ?b = "ownProp img ''base64''" and ?d = "ownProp img ''data''"
  have nb: "\<not> isString ?b" and nd: "\<not> isString ?d"
    using assms JObj by (simp_all add: wrapsString_def)
  have u: "unwrapImage img = jsOr ?b (jsOr ?d JNull)"
    using JObj by (simp add: unwrapImage_def)
  have "jsOr ?b (jsOr ?d JNull) = ?b \<or> jsOr ?b (jsOr ?d JNull) = ?d
        \<or> jsOr ?b (jsOr ?d JNull) = JNull"
    using jsOr_cases[of ?b "jsOr ?d JNull"] jsOr_cases[of ?d JNull] by metis
  then show ?thesis using nb nd u by (auto simp: isString_def)
next
  case (JArr xs)
  then show ?thesis by (simp add: unwrapImage_def jsOr_def isString_def)
qed (use assms in \<open>simp_all add: unwrapImage_def isString_def wrapsString_def\<close>)

lemma matchPrefix_append: "matchPrefix p (p @ x) = Some x"
  by (induction p) auto

lemma replaceDataUri_prefix:
  assumes "sub \<noteq> []" and "list_all isSubtypeChar sub"
  shows "replaceDataUri (''data:image/'' @ sub @ '';base64,'' @ rest) = rest"
proof -
  let ?tail = "'';base64,'' @ rest"
  have semi: "\<not> isSubtypeChar (CHR '';'')" by (simp add: isSubtypeChar_def)
  have all: "\<forall>c\<in>set sub. isSubtypeChar c" using assms(2) by (simp add: list_all_iff)
  have t: "takeWhile isSubtypeChar (sub @ ?tail) = sub"
    using all semi by simp
  have d: "dropWhile isSubtypeChar (sub @ ?tail) = ?tail"
    using all semi by simp
  have m1: "matchPrefix ''data:image/'' (''data:image/'' @ (sub @ ?tail)) = Some (sub @ ?tail)"
    by (rule matchPrefix_append)
  have m2: "matchPrefix '';base64,'' ('';base64,'' @ rest) = Some rest"
    by (rule matchPrefix_append)
  show ?thesis
    unfolding replaceDataUri_def m1 using assms(1) by (simp only: t d m2 option.case if_False)
qed

text \<open>
  What holds for an image that is present: when it is neither a string nor an object
  that holds a string under \<^verbatim>\<open>base64\<close> or \<^verbatim>\<open>data\<close>, the normalisation throws the error
  whose message names the type of the value it was left with (the type of the image
  itself when the image is not an object), and \<open>doPost\<close> answers with that error
  whatever the later stages are, leaving the state they work on as it was: they do not
  run.
\<close>

lemma doPost_rejects_present_image:
  assumes "jsonParse g raw = Inr postData"
    and "getProp postData ''image'' = Inr img"
    and "\<not> wrapsString img" and "img \<noteq> JUndefined"
  shows "getType (unwrapImage img) \<noteq> ''string''
         \<and> normalizeImage g img
             = Inl (Error (''base64Image has wrong type: '' @ getType (unwrapImage img)
                             @ '' instead of string''))
         \<and> (\<forall>(st :: ('m, 'a, 'w) stages) (w :: 'w). doPost g st (Some raw) w
                      = (''Error: Error: base64Image has wrong type: ''
                           @ getType (unwrapImage img) @ '' instead of string'', w))
         \<and> (typeof img \<noteq> ''object'' \<or> img = JNull \<longrightarrow> unwrapImage img = img)"
proof -
  have t: "getType (unwrapImage img) \<noteq> ''string''"
    using unwrapImage_not_string[OF assms(3)] by (simp add: getType_string)
  have n: "normalizeImage g img
             = Inl (Error (''base64Image has wrong type: '' @ getType (unwrapImage img)
                             @ '' instead of string''))"
    using t assms(4) by (simp add: normalizeImage_def Let_def)
  have d: "doPost g st (Some raw) w
             = (''Error: Error: base64Image has wrong type: ''
                  @ getType (unwrapImage img) @ '' instead of string'', w)"
    for st :: "('m, 'a, 'w) stages" and w :: 'w
    by (simp add: doPost_def doPostTry_def assms(1,2) n andThen_def errorToString_def)
  have u: "typeof img \<noteq> ''object'' \<or> img = JNull \<longrightarrow> unwrapImage img = img"
    by (auto simp: unwrapImage_def)
  from t n d u show ?thesis by blast
qed

lemma doPost_rejects_present_image_example:
  "jsonParse exampleEngine ''{\"image\":5}'' = Inr (JObj [(''image'', JNum (Fin 5))])
   \<and> \<not> wrapsString (JNum (Fin 5))
   \<and> normalizeImage exampleEngine (JNum (Fin 5))
       = Inl (Error ''base64Image has wrong type: number instead of string'')
   \<and> (\<forall>(st :: (unit, unit, nat) stages) (w :: nat).
         doPost exampleEngine st (Some ''{\"image\":5}'') w
           = (''Error: Error: base64Image has wrong type: number instead of string'', w))"
proof -
  have a: "jsonParse exampleEngine ''{\"image\":5}'' = Inr (JObj [(''image'', JNum (Fin 5))])"
    by (simp add: exampleEngine_def)
  have b: "getProp (JObj [(''image'', JNum (Fin 5))]) ''image'' = Inr (JNum (Fin 5))"
    by (simp add: getProp_def nullish_def)
  have c: "\<not> wrapsString (JNum (Fin 5))" by (simp add: wrapsString_def)
  have d: "JNum (Fin 5) \<noteq> JUndefined" by simp
  have t: "getType (unwrapImage (JNum (Fin 5))) = ''number''"
    by (simp add: unwrapImage_def getType_def)
  from doPost_rejects_present_image[OF a b c d, where ?'m = unit and ?'a = unit and ?'w = nat]
    a c show ?thesis
    unfolding t by simp
qed

text \<open>
  C7. The claim fails for the image that is absent. With the body \<^verbatim>\<open>{}\<close> the value of
  \<^verbatim>\<open>postData.image\<close> is \<^verbatim>\<open>undefined\<close>: it is neither a string nor an object that holds one,
  and its type is \<^verbatim>\<open>undefined\<close>. The normalisation does fail and no later stage runs, but
  the error is the \<^verbatim>\<open>TypeError\<close> of the line that logs the payload, not the error whose
  message names the type.
\<close>

theorem doPost_absent_image_throws_TypeError:
  "jsonParse exampleEngine ''{}'' = Inr (JObj [])
   \<and> getProp (JObj []) ''image'' = Inr JUndefined
   \<and> \<not> wrapsString JUndefined
   \<and> getType (unwrapImage JUndefined) = ''undefined''
   \<and> normalizeImage exampleEngine JUndefined = Inl TypeError
   \<and> normalizeImage exampleEngine JUndefined
       \<noteq> Inl (Error ''base64Image has wrong type: undefined instead of string'')
   \<and> (\<forall>(st :: (unit, unit, nat) stages) (w :: nat).
         doPost exampleEngine st (Some ''{}'') w = (''Error: TypeError'', w))"
proof -
  have a: "jsonParse exampleEngine ''{}'' = Inr (JObj [])"
    by (simp add: exampleEngine_def)
  have b: "getProp (JObj []) ''image'' = Inr JUndefined"
    by (simp add: getProp_def nullish_def)
  have c: "\<not> wrapsString JUndefined" by (simp add: wrapsString_def)
  have t: "getType (unwrapImage JUndefined) = ''undefined''"
    by (simp add: unwrapImage_def getType_def)
  have n: "normalizeImage exampleEngine JUndefined = Inl TypeError"
    by (simp add: normalizeImage_def Let_def t)
  have e: "errorToString exampleEngine TypeError = ''TypeError''"
    by (simp add: errorToString_def exampleEngine_def)
  have d: "doPost exampleEngine st (Some ''{}'') w = (''Error: TypeError'', w)"
    for st :: "(unit, unit, nat) stages" and w :: nat
    by (simp add: doPost_def doPostTry_def a b n andThen_def e)
  from a b c t n d show ?thesis by simp
qed

text \<open>An image that unwraps to a string is normalised to that string, cleaned.\<close>

lemma normalizeImage_string:
  "unwrapImage img = JStr s \<Longrightarrow> normalizeImage g img = Inr (trim (replaceDataUri s))"
  by (simp add: normalizeImage_def getType_def jsToString_def)

text \<open>
  C6 (as amended). For every string \<open>s\<close> that is not empty, the normalisation gives the
  same result for the bare string, for every image whose property \<^verbatim>\<open>base64\<close> is \<open>s\<close>
  (whatever it holds under \<^verbatim>\<open>data\<close>), and for every image whose property \<^verbatim>\<open>data\<close> is \<open>s\<close>
  and whose property \<^verbatim>\<open>base64\<close> is absent or falsy: the string without a leading
  \<^verbatim>\<open>data:image/<subtype>;base64,\<close> and then trimmed.
\<close>

theorem normalizeImage_base64_then_data:
  assumes "s \<noteq> []"
  shows "normalizeImage g (JStr s) = Inr (trim (replaceDataUri s))
         \<and> (\<forall>img. ownProp img ''base64'' = JStr s
               \<longrightarrow> normalizeImage g img = Inr (trim (replaceDataUri s)))
         \<and> (\<forall>img. ownProp img ''data'' = JStr s \<and> \<not> truthy (ownProp img ''base64'')
               \<longrightarrow> normalizeImage g img = Inr (trim (replaceDataUri s)))
         \<and> (\<forall>sub rest. s = ''data:image/'' @ sub @ '';base64,'' @ rest \<and> sub \<noteq> []
                         \<and> list_all isSubtypeChar sub
               \<longrightarrow> trim (replaceDataUri s) = trim rest)"
proof -
  have a: "normalizeImage g (JStr s) = Inr (trim (replaceDataUri s))"
    by (rule normalizeImage_string) (simp add: unwrapImage_def)
  have b: "normalizeImage g img = Inr (trim (replaceDataUri s))"
    if p: "ownProp img ''base64'' = JStr s" for img
  proof -
    from p have "ownProp img ''base64'' \<noteq> JUndefined" by simp
    then obtain kvs where o: "img = JObj kvs" using ownProp_object by blast
    have "unwrapImage img = JStr s"
      unfolding o unwrapImage_def using p[unfolded o] assms by (simp add: jsOr_def)
    then show ?thesis by (rule normalizeImage_string)
  qed
  have c: "normalizeImage g img = Inr (trim (replaceDataUri s))"
    if p: "ownProp img ''data'' = JStr s \<and> \<not> truthy (ownProp img ''base64'')" for img
  proof -
    from p have "ownProp img ''data'' \<noteq> JUndefined" by simp
    then obtain kvs where o: "img = JObj kvs" using ownProp_object by blast
    have "unwrapImage img = JStr s"
      unfolding o unwrapImage_def using p[unfolded o] assms by (simp add: jsOr_def)
    then show ?thesis by (rule normalizeImage_string)
  qed
  have d: "trim (replaceDataUri s) = trim rest"
    if "s = ''data:image/'' @ sub @ '';base64,'' @ rest \<and> sub \<noteq> [] \<and> list_all isSubtypeChar sub"
    for sub rest
    using that replaceDataUri_prefix[of sub rest] by simp
  from a b c d show ?thesis by blast
qed

theorem normalizeImage_base64_then_data_witness:
  "normalizeImage exampleEngine (JStr ''data:image/png;base64, iVBOR '') = Inr ''iVBOR''
   \<and> normalizeImage exampleEngine
         (JObj [(''data'', JStr ''AAAA''), (''base64'', JStr ''data:image/png;base64, iVBOR '')])
       = Inr ''iVBOR''
   \<and> normalizeImage exampleEngine
         (JObj [(''mimeType'', JStr ''image/png''), (''base64'', JStr []),
                (''data'', JStr ''data:image/png;base64, iVBOR '')])
       = Inr ''iVBOR''
   \<and> normalizeImage exampleEngine (JObj [(''data'', JStr ''data:image/png;base64, iVBOR '')])
       = Inr ''iVBOR''"
proof -
  let ?s = "''data:image/png;base64, iVBOR ''"
  let ?a = "JObj [(''data'', JStr ''AAAA''), (''base64'', JStr ?s)]"
  let ?b = "JObj [(''mimeType'', JStr ''image/png''), (''base64'', JStr []), (''data'', JStr ?s)]"
  let ?c = "JObj [(''data'', JStr ?s)]"
  have n: "?s \<noteq> []" by simp
  have t: "trim (replaceDataUri ?s) = ''iVBOR''"
    and r: "?s = ''data:image/'' @ ''png'' @ '';base64,'' @ '' iVBOR '' \<and> ''png'' \<noteq> []
            \<and> list_all isSubtypeChar ''png''"
    by code_simp+
  have pa: "ownProp ?a ''base64'' = JStr ?s" by simp
  have pb: "ownProp ?b ''data'' = JStr ?s \<and> \<not> truthy (ownProp ?b ''base64'')" by simp
  have pc: "ownProp ?c ''data'' = JStr ?s \<and> \<not> truthy (ownProp ?c ''base64'')" by simp
  from normalizeImage_base64_then_data[OF n, of exampleEngine] pa pb pc r
  show ?thesis unfolding t by blast
qed

text \<open>
  The claim fails for the empty string: bare, it is accepted and normalised to the
  empty string; held under \<^verbatim>\<open>base64\<close> or \<^verbatim>\<open>data\<close>, it is falsy, so the object unwraps to
  \<^verbatim>\<open>null\<close> and the normalisation throws. It fails also for a string held under \<^verbatim>\<open>data\<close>
  in an object with a truthy \<^verbatim>\<open>base64\<close>, which is read first: the result is the other
  string, or the error that names the type of the value under \<^verbatim>\<open>base64\<close>.
\<close>

theorem normalizeImage_wrappers_differ:
  "normalizeImage exampleEngine (JStr []) = Inr []
   \<and> normalizeImage exampleEngine (JObj [(''base64'', JStr [])])
       = Inl (Error ''base64Image has wrong type: null instead of string'')
   \<and> normalizeImage exampleEngine (JObj [(''data'', JStr [])])
       = Inl (Error ''base64Image has wrong type: null instead of string'')
   \<and> normalizeImage exampleEngine (JStr ''BBBB'') = Inr ''BBBB''
   \<and> normalizeImage exampleEngine (JObj [(''base64'', JStr ''AAAA''), (''data'', JStr ''BBBB'')])
       = Inr ''AAAA''
   \<and> normalizeImage exampleEngine (JObj [(''base64'', JNum (Fin 5)), (''data'', JStr ''BBBB'')])
       = Inl (Error ''base64Image has wrong type: number instead of string'')"
  by code_simp

end
